theory Spec2Isabelle
  imports Complex_Main "HOL-Library.Sublist"
begin

section \<open>JavaScript numbers\<close>

text \<open>
  The pose estimator of \<^verbatim>\<open>src/utils/physics.ts\<close> computes with JavaScript numbers.
  They are modelled as exact real numbers together with the one value \<open>NaN\<close>:
  rounding, overflow and the infinities are outside the model. \<open>NaN\<close> is what the
  source computes from a missing array element (\<^verbatim>\<open>undefined\<close> in arithmetic) and from
  the quotient \<^verbatim>\<open>0/0\<close>; it is absorbing for the arithmetic operations and every
  comparison with it is false, as in the source language.

  The model agrees with the source, up to rounding, as long as no intermediate result
  leaves the range of the doubles. The property of the rotation's norm is therefore
  stated for gyro samples of bounded magnitude (\<open>sample_ok\<close>), for which the sums of
  squares of the rotation stage stay in range, and with the tolerance \<^verbatim>\<open>1e-6\<close>.

  A nonzero number divided by zero is an infinity in the source. The model has no such
  value and gives \<open>NaN\<close>; the only divisors of \<^verbatim>\<open>update\<close> are the constant 1000 and two
  Euclidean norms. The first norm is never zero (lemma \<open>dQMag_nonzero\<close> below) and the
  second is zero only when the components it divides are (lemma \<open>Math_sqrt_sum_zero\<close>),
  so the case does not arise there.
\<close>

datatype number = Fin real | NaN

instantiation number :: "{one, plus, minus, uminus, times, inverse, abs, ord, power}"
begin

definition one_number :: number where
  "one_number = Fin 1"

fun plus_number :: "number \<Rightarrow> number \<Rightarrow> number" where
  "plus_number (Fin a) (Fin b) = Fin (a + b)"
| "plus_number _ _ = NaN"

fun minus_number :: "number \<Rightarrow> number \<Rightarrow> number" where
  "minus_number (Fin a) (Fin b) = Fin (a - b)"
| "minus_number _ _ = NaN"

fun uminus_number :: "number \<Rightarrow> number" where
  "uminus_number (Fin a) = Fin (- a)"
| "uminus_number NaN = NaN"

fun times_number :: "number \<Rightarrow> number \<Rightarrow> number" where
  "times_number (Fin a) (Fin b) = Fin (a * b)"
| "times_number _ _ = NaN"

fun divide_number :: "number \<Rightarrow> number \<Rightarrow> number" where
  "divide_number (Fin a) (Fin b) = (if b = 0 then NaN else Fin (a / b))"
| "divide_number _ _ = NaN"

definition inverse_number :: "number \<Rightarrow> number" where
  "inverse_number a = divide (Fin 1) (a::number)"

fun abs_number :: "number \<Rightarrow> number" where
  "abs_number (Fin a) = Fin \<bar>a\<bar>"
| "abs_number NaN = NaN"

fun less_number :: "number \<Rightarrow> number \<Rightarrow> bool" where
  "less_number (Fin a) (Fin b) = (a < b)"
| "less_number _ _ = False"

fun less_eq_number :: "number \<Rightarrow> number \<Rightarrow> bool" where
  "less_eq_number (Fin a) (Fin b) = (a \<le> b)"
| "less_eq_number _ _ = False"

instance ..

end

text \<open>\<^verbatim>\<open>Math.sqrt\<close>: \<open>NaN\<close> on a negative argument.\<close>

fun Math_sqrt :: "number \<Rightarrow> number" where
  "Math_sqrt (Fin a) = (if a < 0 then NaN else Fin (sqrt a))"
| "Math_sqrt NaN = NaN"

text \<open>\<^verbatim>\<open>a || b\<close> on numbers: \<open>0\<close> and \<open>NaN\<close> are the falsy numbers.\<close>

definition or_else :: "number \<Rightarrow> number \<Rightarrow> number" where
  "or_else a b = (if a = Fin 0 \<or> a = NaN then b else a)"

text \<open>
  \<^verbatim>\<open>xs[i]\<close> read as a number. The samples arrive as arrays of finite numbers
  (\<^verbatim>\<open>number[]\<close>, decoded from JSON); reading past the end gives \<^verbatim>\<open>undefined\<close>, which
  every arithmetic operation of \<^verbatim>\<open>update\<close> turns into \<open>NaN\<close>.
\<close>

definition elem :: "real list \<Rightarrow> nat \<Rightarrow> number" where
  "elem xs i = (if i < length xs then Fin (xs ! i) else NaN)"

section \<open>The pose and the physics engine\<close>

text \<open>
  The interfaces \<^verbatim>\<open>Vector3\<close>, \<^verbatim>\<open>Quaternion\<close> and \<^verbatim>\<open>ControllerState\<close>. The fields
  \<^verbatim>\<open>x, y, z\<close> (and \<^verbatim>\<open>w\<close>) are prefixed with \<open>v\<close> and \<open>q\<close> to keep the two records apart.
\<close>

record Vector3 =
  vx :: number
  vy :: number
  vz :: number

record Quaternion =
  qx :: number
  qy :: number
  qz :: number
  qw :: number

record ControllerState =
  position :: Vector3
  rotation :: Quaternion
  velocity :: Vector3
  lastUpdate :: number

definition FRICTION :: number where
  "FRICTION = Fin 0.95"

definition GRAVITY :: number where
  "GRAVITY = Fin 9.81"

definition SCALE_FACTOR :: number where
  "SCALE_FACTOR = Fin 0.5"

text \<open>The constructor: the identity pose with \<^verbatim>\<open>lastUpdate: 0\<close>.\<close>

definition construct :: ControllerState where
  "construct =
     \<lparr>position = \<lparr>vx = Fin 0, vy = Fin 0, vz = Fin 0\<rparr>,
      rotation = \<lparr>qx = Fin 0, qy = Fin 0, qz = Fin 0, qw = Fin 1\<rparr>,
      velocity = \<lparr>vx = Fin 0, vy = Fin 0, vz = Fin 0\<rparr>,
      lastUpdate = Fin 0\<rparr>"

text \<open>
  \<^verbatim>\<open>reset()\<close> replaces the state; \<open>now\<close> is the value \<^verbatim>\<open>performance.now()\<close> returns at
  the call, a finite number supplied by the environment.
\<close>

definition reset :: "real \<Rightarrow> ControllerState \<Rightarrow> ControllerState" where
  "reset now st =
     \<lparr>position = \<lparr>vx = Fin 0, vy = Fin 0, vz = Fin 0\<rparr>,
      rotation = \<lparr>qx = Fin 0, qy = Fin 0, qz = Fin 0, qw = Fin 1\<rparr>,
      velocity = \<lparr>vx = Fin 0, vy = Fin 0, vz = Fin 0\<rparr>,
      lastUpdate = Fin now\<rparr>"

definition multiplyQuaternions :: "Quaternion \<Rightarrow> Quaternion \<Rightarrow> Quaternion" where
  "multiplyQuaternions q1 q2 =
     \<lparr>qx = qx q1 * qw q2 + qy q1 * qz q2 - qz q1 * qy q2 + qw q1 * qx q2,
      qy = (- qx q1) * qz q2 + qy q1 * qw q2 + qz q1 * qx q2 + qw q1 * qy q2,
      qz = qx q1 * qy q2 - qy q1 * qx q2 + qz q1 * qw q2 + qw q1 * qz q2,
      qw = (- qx q1) * qx q2 - qy q1 * qy q2 - qz q1 * qz q2 + qw q1 * qw q2\<rparr>"

definition applyQuaternion :: "Vector3 \<Rightarrow> Quaternion \<Rightarrow> Vector3" where
  "applyQuaternion v q =
     (let x = vx v; y = vy v; z = vz v;
          ix = qw q * x + qy q * z - qz q * y;
          iy = qw q * y + qz q * x - qx q * z;
          iz = qw q * z + qx q * y - qy q * x;
          iw = (- qx q) * x - qy q * y - qz q * z
      in \<lparr>vx = ix * qw q + iw * (- qx q) + iy * (- qz q) - iz * (- qy q),
          vy = iy * qw q + iw * (- qy q) + iz * (- qx q) - ix * (- qz q),
          vz = iz * qw q + iw * (- qz q) + ix * (- qy q) - iy * (- qx q)\<rparr>)"

subsection \<open>The stages of \<^verbatim>\<open>update\<close>\<close>

text \<open>
  \<^verbatim>\<open>update\<close> is one method; its body is cut here at the source's own comments into the
  time step, the rotation stage (``1. Process Rotation'') and the position stage
  (``2. Process Position''). The values \<^verbatim>\<open>halfTheta\<close>, \<^verbatim>\<open>sinHalfTheta\<close>,
  \<^verbatim>\<open>cosHalfTheta\<close> and \<^verbatim>\<open>ratio\<close> of lines 78 to 83 are computed and never read, and
  are left out.
\<close>

text \<open>Line 64: \<^verbatim>\<open>dt = (now - (this.state.lastUpdate || now)) / 1000\<close>.\<close>

definition timeStep :: "real \<Rightarrow> ControllerState \<Rightarrow> number" where
  "timeStep timestamp st =
     (Fin timestamp - or_else (lastUpdate st) (Fin timestamp)) / Fin 1000"

text \<open>Lines 73 to 94: the small-angle quaternion of the gyro sample, normalised.\<close>

definition gyroQuaternion :: "real list \<Rightarrow> number \<Rightarrow> Quaternion" where
  "gyroQuaternion gyro dt =
     (let gx = elem gyro 0; gy = elem gyro 1; gz = elem gyro 2;
          dQ = \<lparr>qx = gx * dt * Fin 0.5, qy = gy * dt * Fin 0.5,
                qz = gz * dt * Fin 0.5, qw = Fin 1\<rparr>;
          dQMag = Math_sqrt (qx dQ * qx dQ + qy dQ * qy dQ + qz dQ * qz dQ + qw dQ * qw dQ)
      in \<lparr>qx = qx dQ / dQMag, qy = qy dQ / dQMag, qz = qz dQ / dQMag, qw = qw dQ / dQMag\<rparr>)"

text \<open>Lines 97 to 104: multiply the rotation by \<open>dQ\<close> and normalise the product.\<close>

definition processRotation :: "real list \<Rightarrow> number \<Rightarrow> Quaternion \<Rightarrow> Quaternion" where
  "processRotation gyro dt rot =
     (let r = multiplyQuaternions rot (gyroQuaternion gyro dt);
          mag = Math_sqrt ((qx r)\<^sup>2 + (qy r)\<^sup>2 + (qz r)\<^sup>2 + (qw r)\<^sup>2)
      in \<lparr>qx = qx r / mag, qy = qy r / mag, qz = qz r / mag, qw = qw r / mag\<rparr>)"

text \<open>
  Lines 110 to 138: the acceleration sample rotated into the world frame by the new
  rotation, with gravity taken off the y axis. This is the world acceleration before the
  dead zone.
\<close>

definition worldAcceleration :: "real list \<Rightarrow> Quaternion \<Rightarrow> Vector3" where
  "worldAcceleration accel rot =
     (let localAccel = \<lparr>vx = elem accel 0, vy = elem accel 1, vz = elem accel 2\<rparr>;
          worldAccel = applyQuaternion localAccel rot
      in worldAccel\<lparr>vy := vy worldAccel - GRAVITY\<rparr>)"

text \<open>Lines 141 to 143: the dead zone, overwriting \<^verbatim>\<open>worldAccel\<close> axis by axis.\<close>

definition deadZone :: "Vector3 \<Rightarrow> Vector3" where
  "deadZone a =
     \<lparr>vx = (if \<bar>vx a\<bar> < Fin 0.2 then Fin 0 else vx a),
      vy = (if \<bar>vy a\<bar> < Fin 0.2 then Fin 0 else vy a),
      vz = (if \<bar>vz a\<bar> < Fin 0.2 then Fin 0 else vz a)\<rparr>"

text \<open>
  Lines 146 to 160: integrate to velocity, damp, and the zero-velocity update. The test
  of line 156 reads \<^verbatim>\<open>worldAccel\<close>, the variable the dead zone has overwritten.
\<close>

definition processVelocity :: "Vector3 \<Rightarrow> number \<Rightarrow> Vector3 \<Rightarrow> Vector3" where
  "processVelocity worldAccel dt vel =
     (let v1 = \<lparr>vx = vx vel + vx worldAccel * dt,
                vy = vy vel + vy worldAccel * dt,
                vz = vz vel + vz worldAccel * dt\<rparr>;
          v2 = \<lparr>vx = vx v1 * FRICTION, vy = vy v1 * FRICTION, vz = vz v1 * FRICTION\<rparr>
      in if \<bar>vx worldAccel\<bar> < Fin 0.1 \<and> \<bar>vy worldAccel\<bar> < Fin 0.1 \<and> \<bar>vz worldAccel\<bar> < Fin 0.1
         then \<lparr>vx = vx v2 * Fin 0.5, vy = vy v2 * Fin 0.5, vz = vz v2 * Fin 0.5\<rparr>
         else v2)"

text \<open>Lines 164 to 168: integrate to position.\<close>

definition processPosition :: "Vector3 \<Rightarrow> number \<Rightarrow> Vector3 \<Rightarrow> Vector3" where
  "processPosition vel dt pos =
     \<lparr>vx = vx pos + vx vel * dt * SCALE_FACTOR,
      vy = vy pos + vy vel * dt * SCALE_FACTOR,
      vz = vz pos + vz vel * dt * SCALE_FACTOR\<rparr>"

text \<open>
  \<^verbatim>\<open>update(accel, gyro, timestamp)\<close>. The timestamp is a finite number (the caller
  passes \<^verbatim>\<open>performance.now()\<close>). \<^verbatim>\<open>lastUpdate\<close> is written before the guard of
  line 67, whose early return leaves the rest of the state as it was.
\<close>

definition update :: "real list \<Rightarrow> real list \<Rightarrow> real \<Rightarrow> ControllerState \<Rightarrow> ControllerState" where
  "update accel gyro timestamp st =
     (let dt = timeStep timestamp st;
          st1 = st\<lparr>lastUpdate := Fin timestamp\<rparr>
      in if dt > Fin 1 \<or> dt \<le> Fin 0 then st1
         else
           let rot = processRotation gyro dt (rotation st1);
               worldAccel = deadZone (worldAcceleration accel rot);
               vel = processVelocity worldAccel dt (velocity st1);
               pos = processPosition vel dt (position st1)
           in st1\<lparr>rotation := rot, velocity := vel, position := pos\<rparr>)"

text \<open>A call of the engine, and a finite sequence of calls run from a state.\<close>

datatype call = Update "real list" "real list" real | Reset real

fun perform :: "call \<Rightarrow> ControllerState \<Rightarrow> ControllerState" where
  "perform (Update accel gyro timestamp) st = update accel gyro timestamp st"
| "perform (Reset now) st = reset now st"

fun run :: "call list \<Rightarrow> ControllerState \<Rightarrow> ControllerState" where
  "run [] st = st"
| "run (c # cs) st = run cs (perform c st)"

text \<open>The Euclidean norm of a quaternion, computed as line 100 does.\<close>

definition qnorm :: "Quaternion \<Rightarrow> number" where
  "qnorm q = Math_sqrt ((qx q)\<^sup>2 + (qy q)\<^sup>2 + (qz q)\<^sup>2 + (qw q)\<^sup>2)"

subsection \<open>Definitions used to state the estimator's properties\<close>

text \<open>
  The properties of the rotation's norm are stated for gyro samples that have the three
  axes \<^verbatim>\<open>update\<close> reads, each of magnitude at most \<^verbatim>\<open>1e150\<close>. A shorter array reads
  \<^verbatim>\<open>undefined\<close>, and the rotation becomes \<open>NaN\<close>. A sample beyond the bound can take the
  sum of squares of line 93 past the largest double \<^verbatim>\<open>Number.MAX_VALUE\<close>, where the source
  computes an infinity and the exact numbers of this model do not follow it; within the
  bound and with a time step in \<open>(0, 1]\<close> that sum is at most \<^verbatim>\<open>1e300\<close> (lemma
  \<open>dQ_in_range\<close> below).
\<close>

definition MAX_VALUE :: real where
  "MAX_VALUE = (2 - 1 / 2 ^ 52) * 2 ^ 1023"

definition sample_ok :: "real list \<Rightarrow> bool" where
  "sample_ok gyro \<longleftrightarrow> 3 \<le> length gyro \<and> list_all (\<lambda>g. \<bar>g\<bar> \<le> 10 ^ 150) (take 3 gyro)"




text \<open>
  The orientation update as the specification words it: the Hamilton product in its
  textbook form, normalisation to unit length, and the small-angle quaternion
  \<open>(gx\<cdot>dt/2, gy\<cdot>dt/2, gz\<cdot>dt/2, 1)\<close>.
\<close>

definition hamilton :: "Quaternion \<Rightarrow> Quaternion \<Rightarrow> Quaternion" where
  "hamilton p q =
     \<lparr>qx = qw p * qx q + qx p * qw q + qy p * qz q - qz p * qy q,
      qy = qw p * qy q - qx p * qz q + qy p * qw q + qz p * qx q,
      qz = qw p * qz q + qx p * qy q - qy p * qx q + qz p * qw q,
      qw = qw p * qw q - qx p * qx q - qy p * qy q - qz p * qz q\<rparr>"

definition normalizeQ :: "Quaternion \<Rightarrow> Quaternion" where
  "normalizeQ q =
     (let n = Math_sqrt (qx q * qx q + qy q * qy q + qz q * qz q + qw q * qw q)
      in \<lparr>qx = qx q / n, qy = qy q / n, qz = qz q / n, qw = qw q / n\<rparr>)"

definition smallAngle :: "number \<Rightarrow> number \<Rightarrow> number \<Rightarrow> number \<Rightarrow> Quaternion" where
  "smallAngle gx gy gz dt =
     \<lparr>qx = gx * dt / Fin 2, qy = gy * dt / Fin 2, qz = gz * dt / Fin 2, qw = Fin 1\<rparr>"

text \<open>
  The velocity after an accepted update as the specification words the zero-velocity
  update: the extra halving is decided on the world acceleration before the dead zone,
  with the threshold 0.1.
\<close>

definition zvu_velocity_claimed ::
  "real list \<Rightarrow> real list \<Rightarrow> real \<Rightarrow> ControllerState \<Rightarrow> Vector3" where
  "zvu_velocity_claimed accel gyro timestamp st =
     (let dt = timeStep timestamp st;
          w = worldAcceleration accel (processRotation gyro dt (rotation st));
          a = deadZone w;
          v = \<lparr>vx = (vx (velocity st) + vx a * dt) * FRICTION,
               vy = (vy (velocity st) + vy a * dt) * FRICTION,
               vz = (vz (velocity st) + vz a * dt) * FRICTION\<rparr>
      in if \<bar>vx w\<bar> < Fin 0.1 \<and> \<bar>vy w\<bar> < Fin 0.1 \<and> \<bar>vz w\<bar> < Fin 0.1
         then \<lparr>vx = vx v * Fin 0.5, vy = vy v * Fin 0.5, vz = vz v * Fin 0.5\<rparr>
         else v)"

text \<open>
  A state in motion, reached from the constructor: the first update only sets the
  clock, the second accelerates along x for half a second.
\<close>

definition moving :: ControllerState where
  "moving = run [Update [] [] 1000, Update [1, 9.81, 0] [0, 0, 0] 1500] construct"

section \<open>The sensor relay\<close>

text \<open>
  \<^verbatim>\<open>src/termux/server.js\<close> reads the output of the sensor process in chunks, cuts it
  into JSON records and broadcasts every record that parses to the connected WebSocket
  clients. Strings are lists of 8-bit characters (the code units below 256; the sensor
  output is ASCII).
\<close>

subsection \<open>String operations\<close>

definition LF :: char where
  "LF = CHR 0x0A"

text \<open>
  The characters \<^verbatim>\<open>String.prototype.trim\<close> removes, among the code units below 256:
  tab, line feed, vertical tab, form feed, carriage return, space and no-break space.
\<close>

definition isWhiteSpace :: "char \<Rightarrow> bool" where
  "isWhiteSpace c = (c \<in> {CHR 0x09, CHR 0x0A, CHR 0x0B, CHR 0x0C, CHR 0x0D, CHR 0x20, CHR 0xA0})"

definition trim :: "string \<Rightarrow> string" where
  "trim s = rev (dropWhile isWhiteSpace (rev (dropWhile isWhiteSpace s)))"

text \<open>\<^verbatim>\<open>s.indexOf(pat)\<close>: the first position of \<open>pat\<close> in \<open>s\<close>; \<open>None\<close> stands for \<^verbatim>\<open>-1\<close>.\<close>

fun indexOf :: "string \<Rightarrow> string \<Rightarrow> nat option" where
  "indexOf [] pat = (if pat = [] then Some 0 else None)"
| "indexOf (c # s) pat =
     (if prefix pat (c # s) then Some 0 else map_option Suc (indexOf s pat))"

text \<open>\<^verbatim>\<open>s.endsWith(c)\<close> for a one-character string \<open>c\<close>.\<close>

definition endsWith :: "string \<Rightarrow> char \<Rightarrow> bool" where
  "endsWith s c = (s \<noteq> [] \<and> last s = c)"

subsection \<open>Clients and the server state\<close>

text \<open>
  A client is a WebSocket of \<^verbatim>\<open>wss.clients\<close>: its ready state and the messages handed
  to its \<^verbatim>\<open>send\<close>, oldest first. The server state is the variable \<^verbatim>\<open>buffer\<close> and the
  client set, in insertion order. \<open>emitted\<close> is a history variable the source does not
  keep: the records \<^verbatim>\<open>tryParseAndSend\<close> has parsed and broadcast, oldest first. The
  one-time console log of lines 96 to 99 is left out.
\<close>

datatype readyState = CONNECTING | OPEN | CLOSING | CLOSED

record client =
  cid :: nat
  readyState :: readyState
  sent :: "string list"

record 'j server =
  buffer :: string
  clients :: "client list"
  emitted :: "'j list"

definition send :: "string \<Rightarrow> client \<Rightarrow> client" where
  "send msg c = c\<lparr>sent := sent c @ [msg]\<rparr>"

text \<open>
  \<^verbatim>\<open>tryParseAndSend(jsonStr)\<close>, lines 87 to 111. \<^verbatim>\<open>JSON.parse\<close> and \<^verbatim>\<open>JSON.stringify\<close>
  belong to the runtime and are parameters: \<open>parse s = None\<close> when \<^verbatim>\<open>JSON.parse\<close> throws,
  which the \<^verbatim>\<open>catch\<close> of line 108 swallows.
\<close>

definition tryParseAndSend ::
  "(string \<Rightarrow> 'j option) \<Rightarrow> ('j \<Rightarrow> string) \<Rightarrow> string \<Rightarrow> 'j server \<Rightarrow> 'j server" where
  "tryParseAndSend parse stringify jsonStr st =
     (let cleanStr = trim jsonStr
      in if cleanStr = [] then st
         else case parse cleanStr of
                None \<Rightarrow> st
              | Some data \<Rightarrow>
                  let msg = stringify data
                  in st\<lparr>clients := map (\<lambda>c. if readyState c = OPEN then send msg c else c) (clients st),
                        emitted := emitted st @ [data]\<rparr>)"

text \<open>
  Lines 59 and 64. The loop runs while the buffer contains \<^verbatim>\<open>}\n{\<close> or \<^verbatim>\<open>}{\<close>, and it
  splits after the \<^verbatim>\<open>}\<close> of the first \<^verbatim>\<open>}\n{\<close> when there is one, otherwise after the
  \<^verbatim>\<open>}\<close> of the first \<^verbatim>\<open>}{\<close>. \<open>splitPoint\<close> is \<open>None\<close> when the loop condition is false.
\<close>

definition splitPoint :: "string \<Rightarrow> nat option" where
  "splitPoint b =
     (case indexOf b [CHR ''}'', LF, CHR ''{''] of
        Some i \<Rightarrow> Some (i + 1)
      | None \<Rightarrow> (case indexOf b ''}{'' of Some i \<Rightarrow> Some (i + 1) | None \<Rightarrow> None))"

lemma length_trim_le: "length (trim s) \<le> length s"
proof -
  have "length (trim s) \<le> length (dropWhile isWhiteSpace s)"
    unfolding trim_def by (metis length_dropWhile_le length_rev)
  also have "\<dots> \<le> length s" by (rule length_dropWhile_le)
  finally show ?thesis .
qed

lemma indexOf_less: "indexOf s pat = Some i \<Longrightarrow> pat \<noteq> [] \<Longrightarrow> i < length s"
  by (induction s arbitrary: i) (auto split: if_splits)

lemma splitPoint_bounds: "splitPoint b = Some k \<Longrightarrow> 0 < k \<and> k \<le> length b"
  by (auto simp: splitPoint_def split: option.splits dest!: indexOf_less)

lemma tryParseAndSend_buffer [simp]:
  "buffer (tryParseAndSend parse stringify jsonStr st) = buffer st"
  by (simp add: tryParseAndSend_def Let_def split: option.splits)

text \<open>
  The \<^verbatim>\<open>while\<close> loop of lines 59 to 70. Every round removes at least one character
  from the buffer, so the loop ends.
\<close>

function splitLoop ::
  "(string \<Rightarrow> 'j option) \<Rightarrow> ('j \<Rightarrow> string) \<Rightarrow> 'j server \<Rightarrow> 'j server" where
  "splitLoop parse stringify st =
     (case splitPoint (buffer st) of
        None \<Rightarrow> st
      | Some k \<Rightarrow>
          let jsonStr = trim (take k (buffer st));
              st1 = st\<lparr>buffer := trim (drop k (buffer st))\<rparr>
          in splitLoop parse stringify (tryParseAndSend parse stringify jsonStr st1))"
  by pat_completeness auto
termination
proof (relation "measure (\<lambda>(parse, stringify, st). length (buffer st))")
  fix parse :: "string \<Rightarrow> 'j option" and stringify :: "'j \<Rightarrow> string"
    and st :: "'j server" and k jsonStr st1
  assume k: "splitPoint (buffer st) = Some k"
    and "jsonStr = trim (take k (buffer st))"
    and st1: "st1 = st\<lparr>buffer := trim (drop k (buffer st))\<rparr>"
  have "length (trim (drop k (buffer st))) \<le> length (buffer st) - k"
    using length_trim_le [of "drop k (buffer st)"] by simp
  then have "length (trim (drop k (buffer st))) < length (buffer st)"
    using splitPoint_bounds [OF k] by linarith
  then show "((parse, stringify, tryParseAndSend parse stringify jsonStr st1), (parse, stringify, st))
        \<in> measure (\<lambda>(parse, stringify, st). length (buffer st))"
    by (simp add: st1)
qed simp

declare splitLoop.simps [simp del]

text \<open>
  The handler of \<^verbatim>\<open>stdout\<close> data, lines 51 to 85: append the chunk, run the loop, then
  try the whole buffer when its trimmed form ends with \<^verbatim>\<open>}\<close>. Line 78 parses the buffer
  as it is, not trimmed.
\<close>

definition onData ::
  "(string \<Rightarrow> 'j option) \<Rightarrow> ('j \<Rightarrow> string) \<Rightarrow> string \<Rightarrow> 'j server \<Rightarrow> 'j server" where
  "onData parse stringify data st =
     (let st1 = splitLoop parse stringify (st\<lparr>buffer := buffer st @ data\<rparr>)
      in if endsWith (trim (buffer st1)) CHR ''}''
         then (case parse (buffer st1) of
                 None \<Rightarrow> st1
               | Some _ \<Rightarrow> (tryParseAndSend parse stringify (buffer st1) st1)\<lparr>buffer := []\<rparr>)
         else st1)"

text \<open>A stream delivered as a list of chunks.\<close>

fun feed :: "(string \<Rightarrow> 'j option) \<Rightarrow> ('j \<Rightarrow> string) \<Rightarrow> string list \<Rightarrow> 'j server \<Rightarrow> 'j server" where
  "feed parse stringify [] st = st"
| "feed parse stringify (c # cs) st = feed parse stringify cs (onData parse stringify c st)"

subsection \<open>Connections\<close>

text \<open>
  The handler of line 29 sends the informational record to the new socket, which the
  WebSocket library has added to \<^verbatim>\<open>wss.clients\<close>. The library also moves a socket through
  its ready states and removes it from the set when it has closed; these are the events
  \<open>Transport\<close> and \<open>Close\<close>.
\<close>

definition info_msg :: string where
  \<open>info_msg = ''{"type":"info","msg":"Connected to Phone"}''\<close>

definition connection :: "nat \<Rightarrow> 'j server \<Rightarrow> 'j server" where
  "connection i st =
     st\<lparr>clients := clients st @ [\<lparr>cid = i, readyState = OPEN, sent = [info_msg]\<rparr>]\<rparr>"

datatype event = Connection nat | Data string | Transport nat readyState | Close nat

fun step :: "(string \<Rightarrow> 'j option) \<Rightarrow> ('j \<Rightarrow> string) \<Rightarrow> event \<Rightarrow> 'j server \<Rightarrow> 'j server" where
  "step parse stringify (Connection i) st = connection i st"
| "step parse stringify (Data d) st = onData parse stringify d st"
| "step parse stringify (Transport i rs) st =
     st\<lparr>clients := map (\<lambda>c. if cid c = i then c\<lparr>readyState := rs\<rparr> else c) (clients st)\<rparr>"
| "step parse stringify (Close i) st =
     st\<lparr>clients := filter (\<lambda>c. cid c \<noteq> i) (clients st)\<rparr>"

fun serve :: "(string \<Rightarrow> 'j option) \<Rightarrow> ('j \<Rightarrow> string) \<Rightarrow> event list \<Rightarrow> 'j server \<Rightarrow> 'j server" where
  "serve parse stringify [] st = st"
| "serve parse stringify (e # es) st = serve parse stringify es (step parse stringify e st)"

subsection \<open>The runtime's JSON functions\<close>

text \<open>
  For closed examples the parameters are instantiated with a parser of the JSON grammar
  (ECMA-404) that returns the syntax tree, number lexemes and string contents kept as
  written, and with the compact printer of that tree. The parser strips the JSON white
  space (space, tab, line feed, carriage return) around the text and descends
  recursively; its fuel bounds the number of nested calls and is set from the length of
  the text.
\<close>

datatype json =
    JNull
  | JBool bool
  | JNumber string
  | JString string
  | JArray "json list"
  | JObject "(string \<times> json) list"

definition jsonSpace :: "char \<Rightarrow> bool" where
  "jsonSpace c = (c \<in> {CHR 0x20, CHR 0x09, CHR 0x0A, CHR 0x0D})"

definition skipSpace :: "string \<Rightarrow> string" where
  "skipSpace s = dropWhile jsonSpace s"

definition jtrim :: "string \<Rightarrow> string" where
  "jtrim s = rev (dropWhile jsonSpace (rev (dropWhile jsonSpace s)))"

definition isDigit :: "char \<Rightarrow> bool" where
  "isDigit c = (c \<in> set ''0123456789'')"

definition isHex :: "char \<Rightarrow> bool" where
  "isHex c = (c \<in> set ''0123456789abcdefABCDEF'')"

text \<open>
  The rest of a string literal after its opening quote (\<open>CHR 0x22\<close>); \<open>CHR 0x5C\<close> is the
  backslash.
\<close>

fun scanString :: "string \<Rightarrow> (string \<times> string) option" where
  "scanString [] = None"
| "scanString (c # cs) =
     (if c = CHR 0x22 then Some ([], cs)
      else if c = CHR 0x5C then
        (case cs of
           [] \<Rightarrow> None
         | e # es \<Rightarrow>
             if e \<in> {CHR 0x22, CHR 0x5C, CHR ''/'', CHR ''b'', CHR ''f'', CHR ''n'', CHR ''r'', CHR ''t''}
             then map_option (\<lambda>(str, rest). (c # e # str, rest)) (scanString es)
             else if e = CHR ''u'' then
               (case es of
                  h1 # h2 # h3 # h4 # rest \<Rightarrow>
                    if isHex h1 \<and> isHex h2 \<and> isHex h3 \<and> isHex h4
                    then map_option (\<lambda>(str, r). (c # e # h1 # h2 # h3 # h4 # str, r)) (scanString rest)
                    else None
                | _ \<Rightarrow> None)
             else None)
      else if (of_char c :: nat) < 0x20 then None
      else map_option (\<lambda>(str, rest). (c # str, rest)) (scanString cs))"

definition scanDigits :: "string \<Rightarrow> (string \<times> string) option" where
  "scanDigits s =
     (if takeWhile isDigit s = [] then None
      else Some (takeWhile isDigit s, dropWhile isDigit s))"

definition scanInt :: "string \<Rightarrow> (string \<times> string) option" where
  "scanInt s =
     (case s of
        [] \<Rightarrow> None
      | d # t \<Rightarrow> if d = CHR ''0'' then Some ([d], t) else scanDigits s)"

definition scanFrac :: "string \<Rightarrow> (string \<times> string) option" where
  "scanFrac s =
     (case s of
        [] \<Rightarrow> Some ([], s)
      | d # t \<Rightarrow>
          if d = CHR ''.'' then map_option (\<lambda>(ds, r). (d # ds, r)) (scanDigits t)
          else Some ([], s))"

definition scanExp :: "string \<Rightarrow> (string \<times> string) option" where
  "scanExp s =
     (case s of
        [] \<Rightarrow> Some ([], s)
      | e # t \<Rightarrow>
          if e = CHR ''e'' \<or> e = CHR ''E'' then
            (case t of
               [] \<Rightarrow> None
             | g # u \<Rightarrow>
                 if g = CHR ''+'' \<or> g = CHR ''-''
                 then map_option (\<lambda>(ds, r). (e # g # ds, r)) (scanDigits u)
                 else map_option (\<lambda>(ds, r). (e # ds, r)) (scanDigits t))
          else Some ([], s))"

definition scanNumber :: "string \<Rightarrow> (string \<times> string) option" where
  "scanNumber s =
     (let (sign, s1) = (case s of [] \<Rightarrow> ([], s) | c # t \<Rightarrow> if c = CHR ''-'' then ([c], t) else ([], s))
      in case scanInt s1 of
           None \<Rightarrow> None
         | Some (ip, s2) \<Rightarrow>
             (case scanFrac s2 of
                None \<Rightarrow> None
              | Some (fp, s3) \<Rightarrow>
                  (case scanExp s3 of
                     None \<Rightarrow> None
                   | Some (ep, s4) \<Rightarrow> Some (sign @ ip @ fp @ ep, s4))))"

fun parseValue :: "nat \<Rightarrow> string \<Rightarrow> (json \<times> string) option"
  and parseElements :: "nat \<Rightarrow> json list \<Rightarrow> string \<Rightarrow> (json \<times> string) option"
  and parseMembers :: "nat \<Rightarrow> (string \<times> json) list \<Rightarrow> string \<Rightarrow> (json \<times> string) option"
where
  "parseValue 0 s = None"
| "parseValue (Suc n) s =
     (case skipSpace s of
        [] \<Rightarrow> None
      | c # cs \<Rightarrow>
          if c = CHR ''{'' then
            (case skipSpace cs of
               [] \<Rightarrow> None
             | d # ds \<Rightarrow> if d = CHR ''}'' then Some (JObject [], ds) else parseMembers n [] cs)
          else if c = CHR ''['' then
            (case skipSpace cs of
               [] \<Rightarrow> None
             | d # ds \<Rightarrow> if d = CHR '']'' then Some (JArray [], ds) else parseElements n [] cs)
          else if c = CHR 0x22 then
            map_option (\<lambda>(str, rest). (JString str, rest)) (scanString cs)
          else if prefix ''true'' (c # cs) then Some (JBool True, drop 4 (c # cs))
          else if prefix ''false'' (c # cs) then Some (JBool False, drop 5 (c # cs))
          else if prefix ''null'' (c # cs) then Some (JNull, drop 4 (c # cs))
          else map_option (\<lambda>(lexeme, rest). (JNumber lexeme, rest)) (scanNumber (c # cs)))"
| "parseElements 0 acc s = None"
| "parseElements (Suc n) acc s =
     (case parseValue n s of
        None \<Rightarrow> None
      | Some (v, rest) \<Rightarrow>
          (case skipSpace rest of
             [] \<Rightarrow> None
           | c # cs \<Rightarrow>
               if c = CHR '','' then parseElements n (acc @ [v]) cs
               else if c = CHR '']'' then Some (JArray (acc @ [v]), cs)
               else None))"
| "parseMembers 0 acc s = None"
| "parseMembers (Suc n) acc s =
     (case skipSpace s of
        [] \<Rightarrow> None
      | q # cs \<Rightarrow>
          if q \<noteq> CHR 0x22 then None
          else
            (case scanString cs of
               None \<Rightarrow> None
             | Some (key, rest) \<Rightarrow>
                 (case skipSpace rest of
                    [] \<Rightarrow> None
                  | c # cs' \<Rightarrow>
                      if c \<noteq> CHR '':'' then None
                      else
                        (case parseValue n cs' of
                           None \<Rightarrow> None
                         | Some (v, rest') \<Rightarrow>
                             (case skipSpace rest' of
                                [] \<Rightarrow> None
                              | d # ds \<Rightarrow>
                                  if d = CHR '','' then parseMembers n (acc @ [(key, v)]) ds
                                  else if d = CHR ''}'' then Some (JObject (acc @ [(key, v)]), ds)
                                  else None)))))"

definition JSON_parse :: "string \<Rightarrow> json option" where
  "JSON_parse s =
     (let text = jtrim s
      in case parseValue (2 * length text + 2) text of
           None \<Rightarrow> None
         | Some (v, rest) \<Rightarrow> if rest = [] then Some v else None)"

fun json_quote :: "string \<Rightarrow> string" where
  "json_quote s = CHR 0x22 # s @ [CHR 0x22]"

fun commaSep :: "string list \<Rightarrow> string" where
  "commaSep [] = []"
| "commaSep [x] = x"
| "commaSep (x # y # ys) = x @ '','' @ commaSep (y # ys)"

fun JSON_stringify :: "json \<Rightarrow> string" where
  "JSON_stringify JNull = ''null''"
| "JSON_stringify (JBool b) = (if b then ''true'' else ''false'')"
| "JSON_stringify (JNumber lexeme) = lexeme"
| "JSON_stringify (JString str) = json_quote str"
| "JSON_stringify (JArray vs) = ''['' @ commaSep (map JSON_stringify vs) @ '']''"
| "JSON_stringify (JObject ms) =
     ''{'' @ commaSep (map (\<lambda>m. json_quote (fst m) @ '':'' @ JSON_stringify (snd m)) ms) @ ''}''"

text \<open>The server as it starts: an empty buffer and no client.\<close>

definition start :: "json server" where
  "start = \<lparr>buffer = [], clients = [], emitted = []\<rparr>"

subsection \<open>Definitions used to state the relay's properties\<close>

text \<open>Occurrences of a pattern in a string, and its first occurrence.\<close>

definition occursAt :: "string \<Rightarrow> string \<Rightarrow> nat \<Rightarrow> bool" where
  "occursAt pat s i = prefix pat (drop i s)"

definition firstAt :: "string \<Rightarrow> string \<Rightarrow> nat \<Rightarrow> bool" where
  "firstAt pat s i = (occursAt pat s i \<and> list_all (\<lambda>j. \<not> occursAt pat s j) [0..<i])"

definition occurs :: "string \<Rightarrow> string \<Rightarrow> bool" where
  "occurs pat s = list_ex (occursAt pat s) [0..<Suc (length s)]"

text \<open>
  The white space \<^verbatim>\<open>trim\<close> removes from a string is JSON white space: no vertical tab,
  form feed or no-break space among it.
\<close>

definition jsonMargins :: "string \<Rightarrow> bool" where
  "jsonMargins s = (trim s = jtrim s)"

text \<open>
  The split point as the specification words it: just after the \<^verbatim>\<open>}\<close> of the first
  occurrence of either separator, whichever comes first in the buffer.
\<close>

definition claimed_splitPoint :: "string \<Rightarrow> nat option" where
  "claimed_splitPoint b =
     (case (indexOf b [CHR ''}'', LF, CHR ''{''], indexOf b ''}{'') of
        (None, None) \<Rightarrow> None
      | (Some i, None) \<Rightarrow> Some (i + 1)
      | (None, Some j) \<Rightarrow> Some (j + 1)
      | (Some i, Some j) \<Rightarrow> Some (min i j + 1))"

text \<open>
  Delivery of a list of messages to a client: appended when the socket is open, dropped
  otherwise. \<open>fanned_out\<close> relates two server states when the second has emitted the
  records of the first and some more, and its clients are those of the first, each
  delivered exactly the messages of the new records. \<open>followed\<close> says the same of one
  client.
\<close>

definition deliver :: "string list \<Rightarrow> client \<Rightarrow> client" where
  "deliver msgs c = (if readyState c = OPEN then c\<lparr>sent := sent c @ msgs\<rparr> else c)"

definition fanned_out :: "('j \<Rightarrow> string) \<Rightarrow> 'j server \<Rightarrow> 'j server \<Rightarrow> bool" where
  "fanned_out stringify st st' =
     (let n = length (emitted st)
      in take n (emitted st') = emitted st \<and>
         clients st' = map (deliver (map stringify (drop n (emitted st')))) (clients st))"

text \<open>
  An event concerns a client when it registers, retags or removes that client. Two
  clients that stay registered while records are emitted, one open and one closing.
\<close>

definition twoClients :: "json server" where
  "twoClients =
     \<lparr>buffer = [],
      clients = [\<lparr>cid = 1, readyState = OPEN, sent = [info_msg]\<rparr>,
                 \<lparr>cid = 2, readyState = CLOSING, sent = [info_msg]\<rparr>],
      emitted = []\<rparr>"

fun concerns :: "nat \<Rightarrow> event \<Rightarrow> bool" where
  "concerns i (Connection j) = (i = j)"
| "concerns i (Data d) = False"
| "concerns i (Transport j rs) = (i = j)"
| "concerns i (Close j) = (i = j)"

definition client_of :: "nat \<Rightarrow> 'j server \<Rightarrow> client option" where
  "client_of i st = find (\<lambda>c. cid c = i) (clients st)"

definition sent_to :: "nat \<Rightarrow> 'j server \<Rightarrow> string list" where
  "sent_to i st = (case client_of i st of None \<Rightarrow> [] | Some c \<Rightarrow> sent c)"

definition followed :: "('j \<Rightarrow> string) \<Rightarrow> nat \<Rightarrow> 'j server \<Rightarrow> 'j server \<Rightarrow> bool" where
  "followed stringify i st st' =
     (let n = length (emitted st)
      in take n (emitted st') = emitted st \<and>
         client_of i st' =
           map_option (deliver (map stringify (drop n (emitted st')))) (client_of i st))"

text \<open>The two example streams of the specification, and the chunks of a bad split.\<close>

definition accelRecord :: string where
  \<open>accelRecord = ''{"Motion Accel":{"values":[1,2,3]}}''\<close>

definition gyroRecord :: string where
  \<open>gyroRecord = ''{"Pseudo Gyro":{"values":[0.1,0.2,0.3]}}''\<close>

definition firstChunk :: string where
  \<open>firstChunk = accelRecord @ [LF] @ ''{"Pseudo ''\<close>

definition secondChunk :: string where
  \<open>secondChunk = ''Gyro":{"values":[0.1,0.2,0.3]}}''\<close>

text \<open>
  A record followed by a line feed, which is JSON white space, and the same record
  followed by a vertical tab, which \<^verbatim>\<open>trim\<close> removes and \<^verbatim>\<open>JSON.parse\<close> rejects.
\<close>

definition lineChunk :: string where
  \<open>lineChunk = ''{"a":1}'' @ [LF]\<close>

definition tabbedChunk :: string where
  \<open>tabbedChunk = ''{"a":1}'' @ [CHR 0x0B]\<close>

definition mixedStream :: string where
  \<open>mixedStream = ''{"a":1}{"b":2}'' @ [LF] @ ''{"c":3}''\<close>

text \<open>
  The stream \<^verbatim>\<open>{"a":1}{"b":2}\<close>, and the state of the server started empty once the first
  \<open>k\<close> characters of it have arrived, in whatever chunks.
\<close>

definition abStream :: string where
  \<open>abStream = ''{"a":1}{"b":2}''\<close>

definition afterPrefix :: "nat \<Rightarrow> json server" where
  "afterPrefix k =
     \<lparr>buffer = (if k < 7 then take k abStream
                else if k = 7 \<or> 14 \<le> k then []
                else drop 7 (take k abStream)),
      clients = [],
      emitted = (if k < 7 then []
                 else if k < 14 then [JObject [(''a'', JNumber ''1'')]]
                 else [JObject [(''a'', JNumber ''1'')], JObject [(''b'', JNumber ''2'')]])\<rparr>"

section \<open>Properties of the pose estimator\<close>

subsection \<open>Numbers\<close>

lemma sq_number [simp]: "(a::number)\<^sup>2 = a * a"
  by (cases a) (simp_all add: numeral_2_eq_2 one_number_def)

text \<open>
  A Euclidean norm is zero only when every component is: where \<^verbatim>\<open>update\<close> divides by a
  zero norm, it divides zero by zero.
\<close>

lemma Math_sqrt_sum_zero:
  "Math_sqrt (a * a + b * b + c * c + d * d) = Fin 0 \<Longrightarrow>
     a = Fin 0 \<and> b = Fin 0 \<and> c = Fin 0 \<and> d = Fin 0"
  by (cases a; cases b; cases c; cases d)
     (auto split: if_splits simp: sum_squares_eq_zero_iff add_nonneg_eq_0_iff)

text \<open>The norm of the small-angle quaternion, whose last component is 1, is never zero.\<close>

lemma dQMag_nonzero: "Math_sqrt (a * a + b * b + c * c + Fin 1 * Fin 1) \<noteq> Fin 0"
proof (cases a; cases b; cases c)
  fix x y z :: real
  assume "a = Fin x" "b = Fin y" "c = Fin z"
  moreover have "0 < x * x + y * y + z * z + 1" by (simp add: add_nonneg_pos)
  ultimately show ?thesis by (simp add: not_less)
qed simp_all

lemma half_number: "(a::number) * Fin (1 / 2) = a / Fin 2"
  by (cases a) simp_all

subsection \<open>The time step and the guard\<close>

lemma timeStep_value:
  "timeStep timestamp st =
     Fin ((timestamp - (case lastUpdate st of Fin l \<Rightarrow> if l = 0 then timestamp else l
                                            | NaN \<Rightarrow> timestamp)) / 1000)"
  by (cases "lastUpdate st") (simp_all add: timeStep_def or_else_def)

lemma timeStep_finite: "\<exists>t. timeStep timestamp st = Fin t"
  using timeStep_value by blast

lemma update_accepted:
  assumes "Fin 0 < timeStep timestamp st" "timeStep timestamp st \<le> Fin 1"
  shows "update accel gyro timestamp st =
     (let dt = timeStep timestamp st;
          rot = processRotation gyro dt (rotation st);
          vel = processVelocity (deadZone (worldAcceleration accel rot)) dt (velocity st)
      in st\<lparr>lastUpdate := Fin timestamp, rotation := rot, velocity := vel,
             position := processPosition vel dt (position st)\<rparr>)"
  using assms by (cases "timeStep timestamp st") (auto simp add: update_def Let_def)

lemma identity_step:
  "processRotation [0, 0, 0] (Fin t) \<lparr>qx = Fin 0, qy = Fin 0, qz = Fin 0, qw = Fin 1\<rparr> =
     \<lparr>qx = Fin 0, qy = Fin 0, qz = Fin 0, qw = Fin 1\<rparr>"
  by (simp add: processRotation_def gyroQuaternion_def multiplyQuaternions_def elem_def Let_def)

lemma worldAcceleration_identity:
  "worldAcceleration [a, b, c] \<lparr>qx = Fin 0, qy = Fin 0, qz = Fin 0, qw = Fin 1\<rparr> =
     \<lparr>vx = Fin a, vy = Fin (b - 9.81), vz = Fin c\<rparr>"
  by (simp add: worldAcceleration_def applyQuaternion_def elem_def Let_def GRAVITY_def)

lemma moving_value:
  "moving = \<lparr>position = \<lparr>vx = Fin 0.11875, vy = Fin 0, vz = Fin 0\<rparr>,
             rotation = \<lparr>qx = Fin 0, qy = Fin 0, qz = Fin 0, qw = Fin 1\<rparr>,
             velocity = \<lparr>vx = Fin 0.475, vy = Fin 0, vz = Fin 0\<rparr>,
             lastUpdate = Fin 1500\<rparr>"
  by (simp add: moving_def update_def timeStep_def or_else_def construct_def Let_def
      identity_step worldAcceleration_identity deadZone_def processVelocity_def
      processPosition_def FRICTION_def SCALE_FACTOR_def)

text \<open>
  Claim C3. Whenever the time step \<open>dt\<close> of a call to \<^verbatim>\<open>update\<close> (read as the
  specification's \<open>(timestamp - lastUpdate) / 1000\<close>, or as the value line 64 computes)
  satisfies \<open>dt \<le> 0\<close> or \<open>dt > 1\<close>, the call leaves position, velocity and rotation
  exactly as they were and sets \<^verbatim>\<open>lastUpdate\<close> to the given timestamp. The call returns
  a state: nothing is raised.
\<close>

theorem dt_guard_frame:
  assumes "dt = (Fin timestamp - lastUpdate st) / Fin 1000 \<or> dt = timeStep timestamp st"
    and "dt \<le> Fin 0 \<or> Fin 1 < dt"
  shows "update accel gyro timestamp st = st\<lparr>lastUpdate := Fin timestamp\<rparr> \<and>
         position (update accel gyro timestamp st) = position st \<and>
         velocity (update accel gyro timestamp st) = velocity st \<and>
         rotation (update accel gyro timestamp st) = rotation st \<and>
         lastUpdate (update accel gyro timestamp st) = Fin timestamp"
proof -
  have "timeStep timestamp st \<le> Fin 0 \<or> Fin 1 < timeStep timestamp st"
    using assms
    by (cases "lastUpdate st") (auto simp add: timeStep_def or_else_def split: if_splits)
  then have "update accel gyro timestamp st = st\<lparr>lastUpdate := Fin timestamp\<rparr>"
    by (auto simp add: update_def Let_def)
  then show ?thesis by simp
qed

theorem dt_guard_frame_witness:
  "Fin 1 < (Fin 4000 - lastUpdate moving) / Fin 1000 \<and>
   update [1, 2, 3] [0, 0, 1] 4000 moving = moving\<lparr>lastUpdate := Fin 4000\<rparr> \<and>
   rotation (update [1, 2, 3] [0, 0, 1] 4000 moving) = rotation moving"
proof -
  have "Fin 1 < (Fin 4000 - lastUpdate moving) / Fin 1000"
    by (simp add: moving_value)
  then show ?thesis
    using dt_guard_frame [of "(Fin 4000 - lastUpdate moving) / Fin 1000" 4000 moving "[1, 2, 3]" "[0, 0, 1]"]
    by simp
qed

text \<open>
  Claim C10. The constructor sets \<^verbatim>\<open>lastUpdate\<close> to 0, which line 64 treats as absent:
  for every acceleration sample, gyro sample and timestamp the first update after
  construction computes the time step 0, is rejected by the guard, and changes nothing
  but \<^verbatim>\<open>lastUpdate\<close>, which becomes the given timestamp.
\<close>

theorem first_update_dropped:
  "lastUpdate construct = Fin 0 \<and>
   timeStep timestamp construct = Fin 0 \<and>
   update accel gyro timestamp construct = construct\<lparr>lastUpdate := Fin timestamp\<rparr> \<and>
   position (update accel gyro timestamp construct) = position construct \<and>
   velocity (update accel gyro timestamp construct) = velocity construct \<and>
   rotation (update accel gyro timestamp construct) = rotation construct"
  by (simp add: update_def timeStep_def or_else_def construct_def Let_def)

subsection \<open>Reset\<close>

text \<open>
  Claim C7. After \<^verbatim>\<open>reset()\<close>, whatever the state before, the position and the velocity
  are \<open>(0,0,0)\<close>, the rotation is \<open>(0,0,0,1)\<close> and \<^verbatim>\<open>lastUpdate\<close> is the current time;
  nothing of the earlier state survives, so two resets at the same time from any two
  states agree.
\<close>

theorem reset_identity:
  "position (reset now st) = \<lparr>vx = Fin 0, vy = Fin 0, vz = Fin 0\<rparr> \<and>
   velocity (reset now st) = \<lparr>vx = Fin 0, vy = Fin 0, vz = Fin 0\<rparr> \<and>
   rotation (reset now st) = \<lparr>qx = Fin 0, qy = Fin 0, qz = Fin 0, qw = Fin 1\<rparr> \<and>
   lastUpdate (reset now st) = Fin now \<and>
   reset now st = reset now st'"
  by (simp add: reset_def)

subsection \<open>The orientation update\<close>

lemma gyroQuaternion_spec:
  "gyroQuaternion (gx # gy # gz # rest) dt = normalizeQ (smallAngle (Fin gx) (Fin gy) (Fin gz) dt)"
  by (simp add: gyroQuaternion_def normalizeQ_def smallAngle_def elem_def Let_def half_number)

lemma multiplyQuaternions_hamilton: "multiplyQuaternions p q = hamilton p q"
proof -
  obtain a b c d where p: "p = \<lparr>qx = a, qy = b, qz = c, qw = d\<rparr>" by (cases p) auto
  obtain e f g h where q: "q = \<lparr>qx = e, qy = f, qz = g, qw = h\<rparr>" by (cases q) auto
  show ?thesis unfolding p q multiplyQuaternions_def hamilton_def
    by (cases a; cases b; cases c; cases d; cases e; cases f; cases g; cases h) simp_all
qed

lemma processRotation_spec:
  "processRotation (gx # gy # gz # rest) dt rot =
     normalizeQ (hamilton rot (normalizeQ (smallAngle (Fin gx) (Fin gy) (Fin gz) dt)))"
  unfolding processRotation_def gyroQuaternion_spec multiplyQuaternions_hamilton
  by (simp add: normalizeQ_def Let_def)

text \<open>
  Claim C4. For every accepted update (\<open>0 < dt \<le> 1\<close>) with gyro sample \<open>(gx, gy, gz)\<close>
  the new rotation is \<open>normalize (oldRotation \<otimes> dq)\<close>, with \<open>\<otimes>\<close> the Hamilton product
  and \<open>dq\<close> the unit-normalisation of the small-angle quaternion
  \<open>(gx\<cdot>dt/2, gy\<cdot>dt/2, gz\<cdot>dt/2, 1)\<close>.
\<close>

theorem orientation_update:
  assumes "Fin 0 < timeStep timestamp st" "timeStep timestamp st \<le> Fin 1"
  shows "rotation (update accel (gx # gy # gz # rest) timestamp st) =
     normalizeQ (hamilton (rotation st)
       (normalizeQ (smallAngle (Fin gx) (Fin gy) (Fin gz) (timeStep timestamp st))))"
  unfolding update_accepted [OF assms] Let_def
  by (simp add: processRotation_spec)

lemma sqrt_25_16: "sqrt (25 / 16) = 5 / 4"
  by (rule real_sqrt_unique) (simp_all add: power2_eq_square)

theorem orientation_update_witness:
  "Fin 0 < timeStep 2000 moving \<and> timeStep 2000 moving \<le> Fin 1 \<and>
   rotation (update [0, 9.81, 0] [0, 0, 3] 2000 moving) =
     \<lparr>qx = Fin 0, qy = Fin 0, qz = Fin 0.6, qw = Fin 0.8\<rparr>"
proof -
  have a: "Fin 0 < timeStep 2000 moving" and b: "timeStep 2000 moving \<le> Fin 1"
    by (simp_all add: moving_value timeStep_def or_else_def)
  have "normalizeQ (hamilton (rotation moving)
          (normalizeQ (smallAngle (Fin 0) (Fin 0) (Fin 3) (timeStep 2000 moving)))) =
        \<lparr>qx = Fin 0, qy = Fin 0, qz = Fin 0.6, qw = Fin 0.8\<rparr>"
    by (simp add: moving_value timeStep_def or_else_def smallAngle_def normalizeQ_def
        hamilton_def Let_def sqrt_25_16)
  then show ?thesis
    using a b orientation_update [OF a b, of "[0, 9.81, 0]" 0 0 3 "[]"] by simp
qed

subsection \<open>The unit norm of the rotation\<close>

lemma four_square:
  fixes a b c d e f g h :: real
  shows "(a * h + b * g - c * f + d * e) * (a * h + b * g - c * f + d * e) +
         (- a * g + b * h + c * e + d * f) * (- a * g + b * h + c * e + d * f) +
         (a * f - b * e + c * h + d * g) * (a * f - b * e + c * h + d * g) +
         (- a * e - b * f - c * g + d * h) * (- a * e - b * f - c * g + d * h) =
         (a * a + b * b + c * c + d * d) * (e * e + f * f + g * g + h * h)"
  by (simp add: algebra_simps)

lemma qnorm_one_iff:
  "qnorm q = Fin 1 \<longleftrightarrow>
     (\<exists>a b c d. q = \<lparr>qx = Fin a, qy = Fin b, qz = Fin c, qw = Fin d\<rparr> \<and>
        a * a + b * b + c * c + d * d = 1)"
proof -
  obtain x y z w where q: "q = \<lparr>qx = x, qy = y, qz = z, qw = w\<rparr>" by (cases q) auto
  show ?thesis unfolding q qnorm_def
    by (cases x; cases y; cases z; cases w) (auto split: if_splits)
qed

text \<open>A rotation whose norm has a positive lower bound is finite and not zero.\<close>

lemma qnorm_lower:
  assumes "Fin l \<le> qnorm q" "0 < l"
  shows "\<exists>a b c d. q = \<lparr>qx = Fin a, qy = Fin b, qz = Fin c, qw = Fin d\<rparr> \<and>
           0 < a * a + b * b + c * c + d * d"
proof -
  obtain x y z w where q: "q = \<lparr>qx = x, qy = y, qz = z, qw = w\<rparr>" by (cases q) auto
  show ?thesis using assms unfolding q qnorm_def
  proof (cases x; cases y; cases z; cases w; simp split: if_splits)
    fix a b c d :: real
    assume "l \<le> sqrt (a * a + b * b + c * c + d * d)"
    with \<open>0 < l\<close> have "0 < sqrt (a * a + b * b + c * c + d * d)" by linarith
    then show "0 < a * a + b * b + c * c + d * d" by simp
  qed
qed


lemma normalise_real:
  fixes x y z w :: real
  assumes "m = sqrt (x * x + y * y + z * z + w * w)" "m \<noteq> 0"
  shows "x / m * (x / m) + y / m * (y / m) + z / m * (z / m) + w / m * (w / m) = 1"
proof -
  have nn: "0 \<le> x * x + y * y + z * z + w * w" by (simp add: add_nonneg_nonneg)
  have mm: "m * m = x * x + y * y + z * z + w * w"
    using assms(1) nn by simp
  have "x / m * (x / m) + y / m * (y / m) + z / m * (z / m) + w / m * (w / m) =
        (x * x + y * y + z * z + w * w) / (m * m)"
    by (simp add: add_divide_distrib)
  also have "\<dots> = 1" using assms(2) by (simp add: mm [symmetric])
  finally show ?thesis .
qed

text \<open>
  The sum of squares under the square root of line 93 stays below the largest double
  for a sample within the bound and a time step in \<open>(0, 1]\<close>.
\<close>

lemma square_bound:
  fixes g t :: real
  assumes "\<bar>g\<bar> \<le> 10 ^ 150" "0 < t" "t \<le> 1"
  shows "g * t * (1 / 2) * (g * t * (1 / 2)) \<le> 10 ^ 300 / 4"
proof -
  have "\<bar>g\<bar> * t \<le> 10 ^ 150 * 1"
    using assms by (intro mult_mono) simp_all
  then have b: "\<bar>g * t * (1 / 2)\<bar> \<le> 10 ^ 150 / 2"
    using assms(2) by (simp add: abs_mult)
  have "g * t * (1 / 2) * (g * t * (1 / 2)) = \<bar>g * t * (1 / 2)\<bar> * \<bar>g * t * (1 / 2)\<bar>"
    by simp
  also have "\<dots> \<le> (10 ^ 150 / 2) * (10 ^ 150 / 2)"
    using b by (intro mult_mono) simp_all
  also have "\<dots> = (10 ^ 300 / 4 :: real)"
    by simp
  finally show ?thesis .
qed

lemma dQ_in_range:
  assumes "sample_ok (gx # gy # gz # rest)" "0 < t" "t \<le> 1"
  shows "gx * t * (1 / 2) * (gx * t * (1 / 2)) + gy * t * (1 / 2) * (gy * t * (1 / 2)) +
         gz * t * (1 / 2) * (gz * t * (1 / 2)) + 1 * 1 \<le> 10 ^ 300 \<and>
         10 ^ 300 < MAX_VALUE"
proof -
  have "\<bar>gx\<bar> \<le> 10 ^ 150" "\<bar>gy\<bar> \<le> 10 ^ 150" "\<bar>gz\<bar> \<le> 10 ^ 150"
    using assms(1) by (simp_all add: sample_ok_def)
  from this [THEN square_bound, OF assms(2,3)]
  have "gx * t * (1 / 2) * (gx * t * (1 / 2)) + gy * t * (1 / 2) * (gy * t * (1 / 2)) +
        gz * t * (1 / 2) * (gz * t * (1 / 2)) + 1 * 1 \<le> 10 ^ 300"
    by simp
  moreover have "10 ^ 300 < MAX_VALUE"
    by (simp add: MAX_VALUE_def)
  ultimately show ?thesis by simp
qed

lemma gyroQuaternion_unit:
  assumes "3 \<le> length gyro"
  shows "qnorm (gyroQuaternion gyro (Fin t)) = Fin 1"
proof -
  obtain gx gy gz rest where gyro: "gyro = gx # gy # gz # rest"
    using assms by (cases gyro; cases "tl gyro"; cases "tl (tl gyro)") auto
  define x where "x = gx * t * (1 / 2)"
  define y where "y = gy * t * (1 / 2)"
  define z where "z = gz * t * (1 / 2)"
  define m where "m = sqrt (x * x + y * y + z * z + 1 * 1)"
  have pos: "0 < x * x + y * y + z * z + 1 * 1"
    by (simp add: add_nonneg_pos)
  then have m0: "m \<noteq> 0" by (simp add: m_def)
  have g: "gyroQuaternion gyro (Fin t) =
             \<lparr>qx = Fin (x / m), qy = Fin (y / m), qz = Fin (z / m), qw = Fin (1 / m)\<rparr>"
    using pos m0 unfolding gyro x_def y_def z_def m_def
    by (simp add: gyroQuaternion_def elem_def Let_def not_less)
  have "x / m * (x / m) + y / m * (y / m) + z / m * (z / m) + 1 / m * (1 / m) = 1"
    using normalise_real [OF m_def m0] .
  then show ?thesis unfolding g qnorm_one_iff by blast
qed

text \<open>
  Lines 100 to 104 bring a rotation of any nonzero finite length back to unit length:
  the product with the unit \<open>dQ\<close> has the length of the old rotation (\<open>four_square\<close>),
  and the division by that length makes it 1.
\<close>

lemma processRotation_normalises:
  assumes "0 < a * a + b * b + c * c + d * d" "3 \<le> length gyro"
  shows "qnorm (processRotation gyro (Fin t)
           \<lparr>qx = Fin a, qy = Fin b, qz = Fin c, qw = Fin d\<rparr>) = Fin 1"
proof -
  define rot where "rot = \<lparr>qx = Fin a, qy = Fin b, qz = Fin c, qw = Fin d\<rparr>"
  obtain e f g h where dq: "gyroQuaternion gyro (Fin t) = \<lparr>qx = Fin e, qy = Fin f, qz = Fin g, qw = Fin h\<rparr>"
    and n2: "e * e + f * f + g * g + h * h = 1"
    using gyroQuaternion_unit [OF assms(2), of t] unfolding qnorm_one_iff by blast
  define p1 where "p1 = a * h + b * g - c * f + d * e"
  define p2 where "p2 = - a * g + b * h + c * e + d * f"
  define p3 where "p3 = a * f - b * e + c * h + d * g"
  define p4 where "p4 = - a * e - b * f - c * g + d * h"
  define m where "m = sqrt (p1 * p1 + p2 * p2 + p3 * p3 + p4 * p4)"
  have prod: "multiplyQuaternions rot (gyroQuaternion gyro (Fin t)) =
                \<lparr>qx = Fin p1, qy = Fin p2, qz = Fin p3, qw = Fin p4\<rparr>"
    by (simp add: multiplyQuaternions_def rot_def dq p1_def p2_def p3_def p4_def)
  have n3: "p1 * p1 + p2 * p2 + p3 * p3 + p4 * p4 = a * a + b * b + c * c + d * d"
    unfolding p1_def p2_def p3_def p4_def four_square n2 by simp
  have pos: "0 < p1 * p1 + p2 * p2 + p3 * p3 + p4 * p4"
    using assms(1) n3 by simp
  then have m0: "m \<noteq> 0" by (simp add: m_def)
  have "processRotation gyro (Fin t) rot =
          \<lparr>qx = Fin (p1 / m), qy = Fin (p2 / m), qz = Fin (p3 / m), qw = Fin (p4 / m)\<rparr>"
    using pos m0 unfolding processRotation_def prod m_def
    by (simp add: Let_def not_less)
  moreover have "p1 / m * (p1 / m) + p2 / m * (p2 / m) + p3 / m * (p3 / m) + p4 / m * (p4 / m) = 1"
    using normalise_real [OF m_def m0] .
  ultimately show ?thesis unfolding qnorm_one_iff rot_def by blast
qed

lemma update_normalises:
  assumes "Fin 0 < timeStep timestamp st" "timeStep timestamp st \<le> Fin 1"
    "Fin l \<le> qnorm (rotation st)" "0 < l" "3 \<le> length gyro"
  shows "qnorm (rotation (update accel gyro timestamp st)) = Fin 1"
proof -
  obtain t where t: "timeStep timestamp st = Fin t" using timeStep_finite by blast
  obtain a b c d where rot: "rotation st = \<lparr>qx = Fin a, qy = Fin b, qz = Fin c, qw = Fin d\<rparr>"
    and pos: "0 < a * a + b * b + c * c + d * d"
    using qnorm_lower [OF assms(3,4)] by blast
  show ?thesis
    unfolding update_accepted [OF assms(1,2)] Let_def t
    using processRotation_normalises [OF pos assms(5), of t] by (simp add: rot)
qed







subsection \<open>The zero-velocity update\<close>

lemma deadZone_test:
  "(\<bar>(if \<bar>a\<bar> < Fin 0.2 then Fin 0 else a)\<bar> < Fin 0.1) = (\<bar>a\<bar> < Fin 0.2)"
  by (cases a) auto

lemma zvu_test_iff:
  "(\<bar>vx (deadZone w)\<bar> < Fin 0.1 \<and> \<bar>vy (deadZone w)\<bar> < Fin 0.1 \<and> \<bar>vz (deadZone w)\<bar> < Fin 0.1) =
   (\<bar>vx w\<bar> < Fin 0.2 \<and> \<bar>vy w\<bar> < Fin 0.2 \<and> \<bar>vz w\<bar> < Fin 0.2)"
  by (simp only: deadZone_def Vector3.simps deadZone_test)

text \<open>
  Claim C2, as the code has it. In an accepted update (\<open>0 < dt \<le> 1\<close>) the extra halving
  of the velocity, after the damping by 0.95, is applied exactly when the world
  acceleration before the dead zone (after the gravity subtraction) has magnitude below
  0.2 on every axis, that is, when the dead zone has cleared every axis: line 156 tests
  the cleared acceleration against 0.1.
\<close>

theorem zero_velocity_update:
  assumes "Fin 0 < timeStep timestamp st" "timeStep timestamp st \<le> Fin 1"
  shows "velocity (update accel gyro timestamp st) =
     (let dt = timeStep timestamp st;
          w = worldAcceleration accel (rotation (update accel gyro timestamp st));
          a = deadZone w;
          v = \<lparr>vx = (vx (velocity st) + vx a * dt) * FRICTION,
               vy = (vy (velocity st) + vy a * dt) * FRICTION,
               vz = (vz (velocity st) + vz a * dt) * FRICTION\<rparr>
      in if \<bar>vx w\<bar> < Fin 0.2 \<and> \<bar>vy w\<bar> < Fin 0.2 \<and> \<bar>vz w\<bar> < Fin 0.2
         then \<lparr>vx = vx v * Fin 0.5, vy = vy v * Fin 0.5, vz = vz v * Fin 0.5\<rparr>
         else v)"
  unfolding update_accepted [OF assms] Let_def
  by (simp add: processVelocity_def Let_def zvu_test_iff)

text \<open>
  The claim as stated fails on the state \<open>moving\<close>: the sample \<open>(0.15, 9.81, 0)\<close> has
  the world acceleration \<open>(0.15, 0, 0)\<close> before the dead zone, not below 0.1 on the x
  axis, and the velocity \<open>0.475\<close> is damped and halved to \<open>0.225625\<close> all the same.
\<close>

theorem zero_velocity_update_counterexample:
  "worldAcceleration [0.15, 9.81, 0] (rotation (update [0.15, 9.81, 0] [0, 0, 0] 2000 moving)) =
     \<lparr>vx = Fin 0.15, vy = Fin 0, vz = Fin 0\<rparr> \<and>
   velocity moving = \<lparr>vx = Fin 0.475, vy = Fin 0, vz = Fin 0\<rparr> \<and>
   zvu_velocity_claimed [0.15, 9.81, 0] [0, 0, 0] 2000 moving =
     \<lparr>vx = Fin 0.45125, vy = Fin 0, vz = Fin 0\<rparr> \<and>
   velocity (update [0.15, 9.81, 0] [0, 0, 0] 2000 moving) =
     \<lparr>vx = Fin 0.225625, vy = Fin 0, vz = Fin 0\<rparr> \<and>
   velocity (update [0.15, 9.81, 0] [0, 0, 0] 2000 moving) \<noteq>
     zvu_velocity_claimed [0.15, 9.81, 0] [0, 0, 0] 2000 moving"
  by (simp add: moving_value update_def timeStep_def or_else_def Let_def
      identity_step worldAcceleration_identity deadZone_def processVelocity_def
      zvu_velocity_claimed_def FRICTION_def)

theorem zero_velocity_update_witness:
  "Fin 0 < timeStep 2000 moving \<and> timeStep 2000 moving \<le> Fin 1 \<and>
   velocity (update [0.15, 9.81, 0] [0, 0, 0] 2000 moving) =
     \<lparr>vx = Fin 0.225625, vy = Fin 0, vz = Fin 0\<rparr>"
proof -
  have a: "Fin 0 < timeStep 2000 moving" and b: "timeStep 2000 moving \<le> Fin 1"
    by (simp_all add: moving_value timeStep_def or_else_def)
  have r: "rotation (update [0.15, 9.81, 0] [0, 0, 0] 2000 moving) =
             \<lparr>qx = Fin 0, qy = Fin 0, qz = Fin 0, qw = Fin 1\<rparr>"
    by (simp add: moving_value update_def timeStep_def or_else_def Let_def identity_step)
  show ?thesis
    using a b zero_velocity_update [OF a b, of "[0.15, 9.81, 0]" "[0, 0, 0]", unfolded r]
    by (simp add: worldAcceleration_identity deadZone_def Let_def FRICTION_def moving_value
        timeStep_def or_else_def)
qed

section \<open>Properties of the relay\<close>

subsection \<open>Searching and trimming\<close>

lemma indexOf_Some:
  "indexOf s pat = Some i \<Longrightarrow>
     prefix pat (drop i s) \<and> i \<le> length s \<and> (\<forall>j < i. \<not> prefix pat (drop j s))"
proof (induction s arbitrary: i)
  case Nil
  then show ?case by (simp split: if_splits)
next
  case (Cons c s)
  show ?case
  proof (cases "prefix pat (c # s)")
    case True
    with Cons.prems show ?thesis by simp
  next
    case False
    with Cons.prems obtain i' where i': "indexOf s pat = Some i'" "i = Suc i'"
      by auto
    from Cons.IH [OF i'(1)] False i'(2) show ?thesis
      by (auto simp: less_Suc_eq_0_disj)
  qed
qed

lemma indexOf_None:
  "indexOf s pat = None \<Longrightarrow> j \<le> length s \<Longrightarrow> \<not> prefix pat (drop j s)"
proof (induction s arbitrary: j)
  case Nil
  then show ?case by (simp split: if_splits)
next
  case (Cons c s)
  then show ?case by (cases j) (auto split: if_splits)
qed

lemma indexOf_firstAt: "indexOf s pat = Some i \<Longrightarrow> firstAt pat s i"
  using indexOf_Some [of s pat i] by (simp add: firstAt_def occursAt_def list_all_iff)

lemma occurs_iff: "occurs pat s \<longleftrightarrow> (\<exists>j \<le> length s. prefix pat (drop j s))"
  unfolding occurs_def occursAt_def list_ex_iff
  by (auto simp del: upt_Suc simp add: less_Suc_eq_le)

lemma indexOf_occurs: "occurs pat s \<longleftrightarrow> indexOf s pat \<noteq> None"
proof
  assume "occurs pat s"
  then show "indexOf s pat \<noteq> None"
    unfolding occurs_iff using indexOf_None [of s pat] by blast
next
  assume "indexOf s pat \<noteq> None"
  then obtain i where "indexOf s pat = Some i" by blast
  from indexOf_Some [OF this] show "occurs pat s"
    unfolding occurs_iff by blast
qed

lemma isWhiteSpace_simps [simp]:
  "\<not> isWhiteSpace CHR ''}''" "\<not> isWhiteSpace CHR ''{''" "isWhiteSpace LF"
  by (simp_all add: isWhiteSpace_def LF_def)

lemma trim_Cons:
  "\<not> isWhiteSpace c \<Longrightarrow> trim (c # r) = c # rev (dropWhile isWhiteSpace (rev r))"
  by (simp add: trim_def dropWhile_append3)

lemma trim_space_Cons: "isWhiteSpace c \<Longrightarrow> trim (c # r) = trim r"
  by (simp add: trim_def)

lemma trim_snoc: "\<not> isWhiteSpace c \<Longrightarrow> trim (s @ [c]) = dropWhile isWhiteSpace s @ [c]"
  by (simp add: trim_def dropWhile_append3)

lemma strip_idem:
  "rev (dropWhile P (rev (dropWhile P (rev (dropWhile P (rev (dropWhile P s))))))) =
   rev (dropWhile P (rev (dropWhile P s)))"
proof -
  define u where "u = dropWhile P s"
  define v where "v = dropWhile P (rev u)"
  have "dropWhile P (rev v) = rev v"
  proof (cases "v = []")
    case True
    then show ?thesis by simp
  next
    case False
    obtain ys where ys: "rev u = ys @ v"
      unfolding v_def by (metis takeWhile_dropWhile_id)
    with False have "last v = hd u"
      by (metis last_appendR last_rev)
    moreover have "u \<noteq> []" using ys False by auto
    then have "\<not> P (hd u)" unfolding u_def by (rule hd_dropWhile)
    ultimately have "\<not> P (hd (rev v))" using False by (simp add: hd_rev)
    then show ?thesis by (cases "rev v") simp_all
  qed
  moreover have "dropWhile P v = v" unfolding v_def by simp
  ultimately show ?thesis unfolding u_def [symmetric] v_def [symmetric] by simp
qed

lemma jtrim_idem: "jtrim (jtrim s) = jtrim s"
  unfolding jtrim_def by (rule strip_idem)

text \<open>
  The parser reads a text and its trimmed form alike when the trimmed margins are JSON
  white space.
\<close>

lemma JSON_parse_margins: "jsonMargins s \<Longrightarrow> JSON_parse (trim s) = JSON_parse s"
  by (simp add: JSON_parse_def jsonMargins_def jtrim_idem)

subsection \<open>The splitting loop\<close>

lemma splitPoint_None:
  "splitPoint b = None \<longleftrightarrow>
     indexOf b [CHR ''}'', LF, CHR ''{''] = None \<and> indexOf b ''}{'' = None"
  by (simp add: splitPoint_def split: option.splits)

lemma splitPoint_first:
  assumes "splitPoint b = Some k"
  shows "0 < k \<and> (if occurs [CHR ''}'', LF, CHR ''{''] b
                   then firstAt [CHR ''}'', LF, CHR ''{''] b (k - 1)
                   else firstAt ''}{'' b (k - 1))"
  using assms
  by (auto simp: splitPoint_def indexOf_occurs indexOf_firstAt split: option.splits)

lemma split_parts:
  assumes "prefix (CHR ''}'' # pat) (drop i b)"
  shows "take (i + 1) b = take i b @ [CHR ''}'']" and "prefix pat (drop (i + 1) b)"
proof -
  from assms obtain r where r: "drop i b = CHR ''}'' # pat @ r"
    by (auto simp: prefix_def)
  then have i: "i < length b" by (metis drop_all list.distinct(1) not_le)
  have "b ! i = CHR ''}''" using r i by (metis nth_via_drop)
  then show "take (i + 1) b = take i b @ [CHR ''}'']"
    using i by (simp add: take_Suc_conv_app_nth)
  have "drop (i + 1) b = tl (drop i b)" by (simp add: drop_Suc tl_drop)
  then show "prefix pat (drop (i + 1) b)" using r by simp
qed

lemma splitPoint_parts:
  assumes "splitPoint b = Some k"
  shows "endsWith (trim (take k b)) CHR ''}''" and "\<exists>r. trim (drop k b) = CHR ''{'' # r"
proof -
  have "(\<exists>i. k = i + 1 \<and> prefix [CHR ''}'', LF, CHR ''{''] (drop i b)) \<or>
        (\<exists>i. k = i + 1 \<and> prefix ''}{'' (drop i b))"
    using assms indexOf_Some
    by (fastforce simp: splitPoint_def split: option.splits)
  then obtain i pat where k: "k = i + 1" and p: "prefix (CHR ''}'' # pat) (drop i b)"
    and pat: "pat = [LF, CHR ''{''] \<or> pat = ''{''"
    by blast
  from split_parts [OF p] have t: "take k b = take i b @ [CHR ''}'']"
    and d: "prefix pat (drop k b)" by (simp_all add: k)
  show "endsWith (trim (take k b)) CHR ''}''"
    by (simp add: t trim_snoc endsWith_def)
  from d obtain r where "drop k b = pat @ r" by (auto simp: prefix_def)
  with pat show "\<exists>r. trim (drop k b) = CHR ''{'' # r"
    by (auto simp: trim_space_Cons trim_Cons)
qed

lemma splitLoop_step:
  assumes "splitPoint b = Some k"
  shows "splitLoop parse stringify (st\<lparr>buffer := b\<rparr>) =
         splitLoop parse stringify
           (tryParseAndSend parse stringify (trim (take k b)) (st\<lparr>buffer := trim (drop k b)\<rparr>))"
  using assms by (simp add: splitLoop.simps [of parse stringify "st\<lparr>buffer := b\<rparr>"])

lemma splitLoop_done:
  "splitPoint (buffer st) = None \<Longrightarrow> splitLoop parse stringify st = st"
  by (simp add: splitLoop.simps [of parse stringify st])

lemma splitLoop_drained: "splitPoint (buffer (splitLoop parse stringify st)) = None"
proof (induction parse stringify st rule: splitLoop.induct)
  case (1 parse stringify st)
  show ?case
  proof (cases "splitPoint (buffer st)")
    case None
    then show ?thesis by (simp add: splitLoop.simps [of parse stringify st])
  next
    case (Some k)
    from "1.IH" [OF Some refl refl] Some show ?thesis
      by (simp add: splitLoop.simps [of parse stringify st])
  qed
qed

lemma two_records_example:
  assumes \<open>parse ''{"a":1}'' = Some v1\<close> \<open>parse ''{"b":2}'' = Some v2\<close>
  shows \<open>emitted (onData parse stringify ''{"a":1}{"b":2}''
            \<lparr>buffer = [], clients = cs, emitted = []\<rparr>) = [v1, v2] \<and>
         buffer (onData parse stringify ''{"a":1}{"b":2}''
            \<lparr>buffer = [], clients = cs, emitted = []\<rparr>) = []\<close>
proof -
  have sp: \<open>splitPoint ''{"a":1}{"b":2}'' = Some 7\<close> by code_simp
  have t1: \<open>trim (take 7 ''{"a":1}{"b":2}'') = ''{"a":1}''\<close> by code_simp
  have t2: \<open>trim (drop 7 ''{"a":1}{"b":2}'') = ''{"b":2}''\<close> by code_simp
  have t3: \<open>trim ''{"a":1}'' = ''{"a":1}''\<close> \<open>trim ''{"b":2}'' = ''{"b":2}''\<close> by code_simp+
  have sp2: \<open>splitPoint ''{"b":2}'' = None\<close> by code_simp
  have e: \<open>endsWith ''{"b":2}'' CHR ''}''\<close> by code_simp
  have \<open>\<exists>cs'. splitLoop parse stringify \<lparr>buffer = ''{"a":1}{"b":2}'', clients = cs, emitted = []\<rparr> =
        \<lparr>buffer = ''{"b":2}'', clients = cs', emitted = [v1]\<rparr>\<close>
    using splitLoop_step [OF sp, of parse stringify "\<lparr>buffer = [], clients = cs, emitted = []\<rparr>"]
    by (simp add: t1 t2 t3 tryParseAndSend_def assms splitLoop_done sp2)
  then obtain cs' where
    \<open>splitLoop parse stringify \<lparr>buffer = ''{"a":1}{"b":2}'', clients = cs, emitted = []\<rparr> =
        \<lparr>buffer = ''{"b":2}'', clients = cs', emitted = [v1]\<rparr>\<close> by blast
  then show ?thesis
    by (simp add: onData_def t3 e assms tryParseAndSend_def)
qed

text \<open>
  Claim C5, as the code has it. Whenever the buffer contains an object boundary, the
  loop splits immediately after the \<^verbatim>\<open>}\<close> of the first \<^verbatim>\<open>}\n{\<close> if the buffer contains
  \<^verbatim>\<open>}\n{\<close> anywhere, and only otherwise after the \<^verbatim>\<open>}\<close> of the first \<^verbatim>\<open>}{\<close>; the trimmed
  left part, which ends in \<^verbatim>\<open>}\<close>, is the parse candidate and the trimmed right part,
  which begins with \<^verbatim>\<open>{\<close>, is the new buffer. The single chunk \<^verbatim>\<open>{"a":1}{"b":2}\<close> emits
  exactly the two records \<^verbatim>\<open>{"a":1}\<close> and \<^verbatim>\<open>{"b":2}\<close>, in this order.
\<close>

theorem boundary_split:
  \<open>(splitPoint b = Some k \<longrightarrow>
      0 < k \<and>
      (if occurs [CHR ''}'', LF, CHR ''{''] b
       then firstAt [CHR ''}'', LF, CHR ''{''] b (k - 1)
       else firstAt ''}{'' b (k - 1)) \<and>
      endsWith (trim (take k b)) CHR ''}'' \<and>
      (\<exists>r. trim (drop k b) = CHR ''{'' # r) \<and>
      splitLoop parse stringify (st\<lparr>buffer := b\<rparr>) =
        splitLoop parse stringify
          (tryParseAndSend parse stringify (trim (take k b)) (st\<lparr>buffer := trim (drop k b)\<rparr>))) \<and>
   ((splitPoint b = None) = (\<not> occurs [CHR ''}'', LF, CHR ''{''] b \<and> \<not> occurs ''}{'' b)) \<and>
   (parse ''{"a":1}'' = Some v1 \<and> parse ''{"b":2}'' = Some v2 \<longrightarrow>
      emitted (onData parse stringify ''{"a":1}{"b":2}''
         \<lparr>buffer = [], clients = cs, emitted = []\<rparr>) = [v1, v2] \<and>
      buffer (onData parse stringify ''{"a":1}{"b":2}''
         \<lparr>buffer = [], clients = cs, emitted = []\<rparr>) = [])\<close>
proof (intro conjI impI)
  assume k: \<open>splitPoint b = Some k\<close>
  from splitPoint_first [OF k] show \<open>0 < k\<close>
    and \<open>if occurs [CHR ''}'', LF, CHR ''{''] b
         then firstAt [CHR ''}'', LF, CHR ''{''] b (k - 1)
         else firstAt ''}{'' b (k - 1)\<close>
    by blast+
  from splitPoint_parts [OF k] show \<open>endsWith (trim (take k b)) CHR ''}''\<close>
    and \<open>\<exists>r. trim (drop k b) = CHR ''{'' # r\<close>
    by blast+
  from splitLoop_step [OF k] show \<open>splitLoop parse stringify (st\<lparr>buffer := b\<rparr>) =
        splitLoop parse stringify
          (tryParseAndSend parse stringify (trim (take k b)) (st\<lparr>buffer := trim (drop k b)\<rparr>))\<close> .
next
  show \<open>(splitPoint b = None) = (\<not> occurs [CHR ''}'', LF, CHR ''{''] b \<and> \<not> occurs ''}{'' b)\<close>
    by (simp add: splitPoint_None indexOf_occurs)
next
  assume p: \<open>parse ''{"a":1}'' = Some v1 \<and> parse ''{"b":2}'' = Some v2\<close>
  then have p1: \<open>parse ''{"a":1}'' = Some v1\<close> and p2: \<open>parse ''{"b":2}'' = Some v2\<close>
    by blast+
  from two_records_example [OF p1 p2]
  show \<open>emitted (onData parse stringify ''{"a":1}{"b":2}''
         \<lparr>buffer = [], clients = cs, emitted = []\<rparr>) = [v1, v2]\<close>
    and \<open>buffer (onData parse stringify ''{"a":1}{"b":2}''
         \<lparr>buffer = [], clients = cs, emitted = []\<rparr>) = []\<close>
    by blast+
qed

text \<open>
  The claim as stated fails on the buffer \<^verbatim>\<open>{"a":1}{"b":2}\n{"c":3}\<close>: the first boundary
  is the \<^verbatim>\<open>}{\<close> at position 6, but the loop splits after the \<^verbatim>\<open>}\<close> of the later \<^verbatim>\<open>}\n{\<close>,
  at 14. The left part \<^verbatim>\<open>{"a":1}{"b":2}\<close> does not parse and is dropped; only the third
  record is emitted.
\<close>

theorem boundary_split_counterexample:
  \<open>claimed_splitPoint mixedStream = Some 7 \<and>
   splitPoint mixedStream = Some 14 \<and>
   splitPoint mixedStream \<noteq> claimed_splitPoint mixedStream \<and>
   JSON_parse (trim (take 14 mixedStream)) = None \<and>
   emitted (onData JSON_parse JSON_stringify mixedStream start) = [JObject [(''c'', JNumber ''3'')]]\<close>
  by code_simp

theorem boundary_split_witness:
  \<open>splitPoint mixedStream = Some 14 \<and>
   occurs [CHR ''}'', LF, CHR ''{''] mixedStream \<and>
   firstAt [CHR ''}'', LF, CHR ''{''] mixedStream 13 \<and>
   JSON_parse ''{"a":1}'' = Some (JObject [(''a'', JNumber ''1'')]) \<and>
   JSON_parse ''{"b":2}'' = Some (JObject [(''b'', JNumber ''2'')]) \<and>
   emitted (onData JSON_parse JSON_stringify ''{"a":1}{"b":2}'' start) =
     [JObject [(''a'', JNumber ''1'')], JObject [(''b'', JNumber ''2'')]]\<close>
proof -
  have sp: \<open>splitPoint mixedStream = Some 14\<close> by code_simp
  have oc: \<open>indexOf mixedStream [CHR ''}'', LF, CHR ''{''] \<noteq> None\<close> by code_simp
  have p1: \<open>JSON_parse ''{"a":1}'' = Some (JObject [(''a'', JNumber ''1'')])\<close> by code_simp
  have p2: \<open>JSON_parse ''{"b":2}'' = Some (JObject [(''b'', JNumber ''2'')])\<close> by code_simp
  show ?thesis
    using sp oc p1 p2
      boundary_split [of mixedStream 14 JSON_parse JSON_stringify start
        "JObject [(''a'', JNumber ''1'')]" "JObject [(''b'', JNumber ''2'')]" "[]"]
    by (simp add: indexOf_occurs start_def)
qed

subsection \<open>Chunked delivery\<close>

text \<open>
  The stream \<^verbatim>\<open>{"a":1}{"b":2}\<close> is emitted as its two records however it is cut into
  chunks: a chunk takes the server from the state after one prefix to the state after
  the longer one.
\<close>

lemma afterPrefix_steps:
  "list_all (\<lambda>k. list_all (\<lambda>n.
      onData JSON_parse JSON_stringify (take n (drop k abStream)) (afterPrefix k) = afterPrefix (k + n))
      [0..<15 - k]) [0..<15]"
  by code_simp

lemma afterPrefix_step:
  assumes "k + n \<le> 14"
  shows "onData JSON_parse JSON_stringify (take n (drop k abStream)) (afterPrefix k) = afterPrefix (k + n)"
  using afterPrefix_steps assms by (auto simp: list_all_iff)

lemma feed_afterPrefix:
  "k + length (concat cs) \<le> 14 \<Longrightarrow> concat cs = take (length (concat cs)) (drop k abStream) \<Longrightarrow>
     feed JSON_parse JSON_stringify cs (afterPrefix k) = afterPrefix (k + length (concat cs))"
proof (induction cs arbitrary: k)
  case Nil
  then show ?case by simp
next
  case (Cons c cs)
  have c: "c = take (length c) (drop k abStream)"
    using Cons.prems(2)
    by (metis append_eq_conv_conj concat.simps(2) take_take min.absorb1 length_append le_add1)
  have cs: "concat cs = take (length (concat cs)) (drop (k + length c) abStream)"
    using Cons.prems(2)
    by (metis add.commute append_eq_conv_conj concat.simps(2) drop_drop drop_take length_append
        add_diff_cancel_left')
  have le: "k + length c \<le> 14" "(k + length c) + length (concat cs) \<le> 14"
    using Cons.prems(1) by simp_all
  have "onData JSON_parse JSON_stringify c (afterPrefix k) = afterPrefix (k + length c)"
    using afterPrefix_step [OF le(1)] c by simp
  then show ?case
    using Cons.IH [OF le(2) cs] by (simp add: add.assoc)
qed

lemma chunked_ab:
  assumes "concat cs = abStream"
  shows "feed JSON_parse JSON_stringify cs start =
           \<lparr>buffer = [], clients = [],
             emitted = [JObject [(''a'', JNumber ''1'')], JObject [(''b'', JNumber ''2'')]]\<rparr>"
proof -
  have l: "length (concat cs) = 14" using assms by (simp add: abStream_def)
  have "feed JSON_parse JSON_stringify cs (afterPrefix 0) = afterPrefix (0 + length (concat cs))"
    by (rule feed_afterPrefix) (simp_all add: l assms abStream_def)
  then show ?thesis by (simp add: l afterPrefix_def start_def)
qed

text \<open>
  Claim C6 fails on the code for the two sensor records of the specification. Delivered
  as one chunk they are emitted as they are. Delivered in two chunks, the first ending
  after the space of \<^verbatim>\<open>"Pseudo Gyro"\<close>, the loop splits the first chunk and trims what it
  keeps, which removes that space: two records are emitted, and the second has the key
  \<^verbatim>\<open>PseudoGyro\<close>.
\<close>

theorem chunk_split_trims_kept_text:
  \<open>firstChunk @ secondChunk = accelRecord @ [LF] @ gyroRecord \<and>
   emitted (feed JSON_parse JSON_stringify [firstChunk @ secondChunk] start) =
     [JObject [(''Motion Accel'', JObject [(''values'', JArray [JNumber ''1'', JNumber ''2'', JNumber ''3''])])],
      JObject [(''Pseudo Gyro'', JObject [(''values'', JArray [JNumber ''0.1'', JNumber ''0.2'', JNumber ''0.3''])])]] \<and>
   buffer (feed JSON_parse JSON_stringify [firstChunk] start) = ''{"Pseudo'' \<and>
   emitted (feed JSON_parse JSON_stringify [firstChunk, secondChunk] start) =
     [JObject [(''Motion Accel'', JObject [(''values'', JArray [JNumber ''1'', JNumber ''2'', JNumber ''3''])])],
      JObject [(''PseudoGyro'', JObject [(''values'', JArray [JNumber ''0.1'', JNumber ''0.2'', JNumber ''0.3''])])]]\<close>
  by code_simp

subsection \<open>The buffer after a chunk\<close>

lemma onData_result:
  "(let m = splitLoop parse stringify (st\<lparr>buffer := buffer st @ data\<rparr>)
    in if endsWith (trim (buffer m)) CHR ''}'' \<and> parse (buffer m) \<noteq> None
       then onData parse stringify data st =
              (tryParseAndSend parse stringify (buffer m) m)\<lparr>buffer := []\<rparr>
       else onData parse stringify data st = m)"
  by (auto simp add: onData_def Let_def split: option.splits)

lemma onData_drained:
  "splitPoint (buffer (onData parse stringify data st)) = None"
proof -
  let ?m = "splitLoop parse stringify (st\<lparr>buffer := buffer st @ data\<rparr>)"
  have "buffer (onData parse stringify data st) = [] \<or> onData parse stringify data st = ?m"
    using onData_result [of parse stringify st data]
    by (cases "endsWith (trim (buffer ?m)) CHR ''}'' \<and> parse (buffer ?m) \<noteq> None")
       (simp_all add: Let_def)
  then show ?thesis
  proof
    assume "buffer (onData parse stringify data st) = []"
    then show ?thesis by (simp add: splitPoint_def)
  next
    assume e: "onData parse stringify data st = ?m"
    show ?thesis unfolding e by (rule splitLoop_drained)
  qed
qed

lemma onData_untested:
  "\<not> (endsWith (trim (buffer (onData parse stringify data st))) CHR ''}'' \<and>
      parse (buffer (onData parse stringify data st)) \<noteq> None)"
proof -
  let ?m = "splitLoop parse stringify (st\<lparr>buffer := buffer st @ data\<rparr>)"
  show ?thesis
  proof (cases "endsWith (trim (buffer ?m)) CHR ''}'' \<and> parse (buffer ?m) \<noteq> None")
    case True
    then have "buffer (onData parse stringify data st) = []"
      using onData_result [of parse stringify st data] by (simp add: Let_def)
    then show ?thesis by (simp add: endsWith_def trim_def)
  next
    case False
    then have "onData parse stringify data st = ?m"
      using onData_result [of parse stringify st data] by (simp add: Let_def)
    with False show ?thesis by simp
  qed
qed

text \<open>
  With the JSON parser, and white space of the JSON kind around the buffer, the buffer
  left by the handler is never the text of a record, trimmed or not.
\<close>

lemma retained_buffer_not_record:
  assumes "jsonMargins (buffer (onData JSON_parse stringify data st))"
  shows "\<not> (endsWith (trim (buffer (onData JSON_parse stringify data st))) CHR ''}'' \<and>
            JSON_parse (trim (buffer (onData JSON_parse stringify data st))) \<noteq> None)"
  using onData_untested [of JSON_parse stringify data st] JSON_parse_margins [OF assms]
  by simp

text \<open>
  What the handler guarantees for every chunk and every parser. The buffer it leaves
  contains neither \<^verbatim>\<open>}\n{\<close> nor \<^verbatim>\<open>}{\<close>, and it does not pass the final test of the
  handler, which is that the trimmed buffer ends with \<^verbatim>\<open>}\<close> and that \<^verbatim>\<open>JSON.parse\<close>
  accepts the buffer as it is, not trimmed (line 78): when the buffer left by the loop
  passes that test it goes to \<^verbatim>\<open>tryParseAndSend\<close>, which emits the record parsed from the
  trimmed buffer, and the buffer is cleared; otherwise the buffer is left as the loop
  left it.
\<close>

lemma buffer_invariant:
  "indexOf (buffer (onData parse stringify data st)) [CHR ''}'', LF, CHR ''{''] = None \<and>
   indexOf (buffer (onData parse stringify data st)) ''}{'' = None \<and>
   \<not> (endsWith (trim (buffer (onData parse stringify data st))) CHR ''}'' \<and>
      parse (buffer (onData parse stringify data st)) \<noteq> None) \<and>
   (let m = splitLoop parse stringify (st\<lparr>buffer := buffer st @ data\<rparr>)
    in if endsWith (trim (buffer m)) CHR ''}'' \<and> parse (buffer m) \<noteq> None
       then buffer (onData parse stringify data st) = [] \<and>
            emitted (onData parse stringify data st) =
              emitted m @ (case parse (trim (buffer m)) of None \<Rightarrow> [] | Some d \<Rightarrow> [d])
       else onData parse stringify data st = m)"
proof -
  let ?m = "splitLoop parse stringify (st\<lparr>buffer := buffer st @ data\<rparr>)"
  have drained: "indexOf (buffer (onData parse stringify data st)) [CHR ''}'', LF, CHR ''{''] = None \<and>
                 indexOf (buffer (onData parse stringify data st)) ''}{'' = None"
    using onData_drained [of parse stringify data st] by (simp add: splitPoint_None)
  have final: "if endsWith (trim (buffer ?m)) CHR ''}'' \<and> parse (buffer ?m) \<noteq> None
       then buffer (onData parse stringify data st) = [] \<and>
            emitted (onData parse stringify data st) =
              emitted ?m @ (case parse (trim (buffer ?m)) of None \<Rightarrow> [] | Some d \<Rightarrow> [d])
       else onData parse stringify data st = ?m"
  proof (cases "endsWith (trim (buffer ?m)) CHR ''}'' \<and> parse (buffer ?m) \<noteq> None")
    case True
    then have ne: "trim (buffer ?m) \<noteq> []" by (auto simp: endsWith_def)
    have od: "onData parse stringify data st =
                (tryParseAndSend parse stringify (buffer ?m) ?m)\<lparr>buffer := []\<rparr>"
      using onData_result [of parse stringify st data] True by (simp add: Let_def)
    have em: "emitted (tryParseAndSend parse stringify (buffer ?m) ?m) =
                emitted ?m @ (case parse (trim (buffer ?m)) of None \<Rightarrow> [] | Some d \<Rightarrow> [d])"
      using ne by (simp add: tryParseAndSend_def Let_def split: option.splits)
    show ?thesis unfolding if_P [OF True] od by (simp add: em)
  next
    case False
    then have "onData parse stringify data st = ?m"
      using onData_result [of parse stringify st data] by (simp add: Let_def)
    then show ?thesis unfolding if_not_P [OF False] .
  qed
  show ?thesis
    unfolding Let_def using drained onData_untested [of parse stringify data st] final
    by blast
qed

text \<open>
  Claim C9 fails on the code. The claim has the trimmed buffer parsed, as
  \<^verbatim>\<open>tryParseAndSend\<close> parses its argument (line 90 trims it first); the final test of the
  handler trims the buffer to look for the closing \<^verbatim>\<open>}\<close> and then parses the buffer
  untrimmed. The record \<^verbatim>\<open>{"a":1}\<close> followed by a line feed is emitted and the buffer
  cleared. Followed by a vertical tab, the trimmed buffer ends with \<^verbatim>\<open>}\<close> and is the
  text of the same complete record, but \<^verbatim>\<open>JSON.parse\<close> rejects the buffer with the tab:
  nothing is emitted and the buffer keeps the record.
\<close>

theorem trimmed_record_retained:
  \<open>onData JSON_parse JSON_stringify lineChunk start =
     \<lparr>buffer = [], clients = [], emitted = [JObject [(''a'', JNumber ''1'')]]\<rparr> \<and>
   trim tabbedChunk = ''{"a":1}'' \<and>
   endsWith (trim tabbedChunk) CHR ''}'' \<and>
   JSON_parse (trim tabbedChunk) = Some (JObject [(''a'', JNumber ''1'')]) \<and>
   JSON_parse tabbedChunk = None \<and>
   onData JSON_parse JSON_stringify tabbedChunk start =
     \<lparr>buffer = tabbedChunk, clients = [], emitted = []\<rparr>\<close>
  by code_simp

subsection \<open>Fan-out\<close>

lemma deliver_Nil [simp]: "deliver [] c = c"
  by (simp add: deliver_def)

lemma deliver_deliver [simp]: "deliver ys (deliver xs c) = deliver (xs @ ys) c"
  by (simp add: deliver_def)

lemma cid_deliver [simp]: "cid (deliver msgs c) = cid c"
  by (simp add: deliver_def)

lemma map_deliver_Nil [simp]: "map (deliver []) cs = cs"
  by (induction cs) simp_all

lemma extends_iff:
  "(take (length xs) ys = xs \<and> P (drop (length xs) ys)) \<longleftrightarrow> (\<exists>ds. ys = xs @ ds \<and> P ds)"
  by (metis append_eq_conv_conj)

lemma fanned_out_iff:
  "fanned_out stringify st st' \<longleftrightarrow>
     (\<exists>ds. emitted st' = emitted st @ ds \<and>
           clients st' = map (deliver (map stringify ds)) (clients st))"
  unfolding fanned_out_def Let_def
  by (rule extends_iff [where P = "\<lambda>ds. clients st' = map (deliver (map stringify ds)) (clients st)"])

lemma followed_iff:
  "followed stringify i st st' \<longleftrightarrow>
     (\<exists>ds. emitted st' = emitted st @ ds \<and>
           client_of i st' = map_option (deliver (map stringify ds)) (client_of i st))"
  unfolding followed_def Let_def
  by (rule extends_iff [where P = "\<lambda>ds. client_of i st' =
        map_option (deliver (map stringify ds)) (client_of i st)"])

lemma fanned_out_refl: "fanned_out stringify st st"
  by (simp add: fanned_out_iff)

lemma fanned_out_trans:
  "fanned_out stringify a b \<Longrightarrow> fanned_out stringify b c \<Longrightarrow> fanned_out stringify a c"
  unfolding fanned_out_iff
  by (elim exE conjE, rule_tac x = "ds @ dsa" in exI) (simp add: comp_def)

lemma fanned_out_buffer:
  "fanned_out stringify (st\<lparr>buffer := b\<rparr>) st' = fanned_out stringify st st'"
  "fanned_out stringify st (st'\<lparr>buffer := b\<rparr>) = fanned_out stringify st st'"
  by (simp_all add: fanned_out_def)

lemma tryParseAndSend_fanned_out:
  "fanned_out stringify st (tryParseAndSend parse stringify jsonStr st)"
  by (auto simp: fanned_out_iff tryParseAndSend_def Let_def deliver_def send_def
      split: option.splits)

lemma tryParseAndSend_parsed:
  assumes "trim jsonStr \<noteq> []" "parse (trim jsonStr) = Some d"
  shows "tryParseAndSend parse stringify jsonStr st =
           st\<lparr>clients := map (deliver [stringify d]) (clients st), emitted := emitted st @ [d]\<rparr>"
  using assms by (simp add: tryParseAndSend_def Let_def deliver_def send_def)

lemma splitLoop_fanned_out: "fanned_out stringify st (splitLoop parse stringify st)"
proof (induction parse stringify st rule: splitLoop.induct)
  case (1 parse stringify st)
  show ?case
  proof (cases "splitPoint (buffer st)")
    case None
    then show ?thesis by (simp add: splitLoop.simps [of parse stringify st] fanned_out_refl)
  next
    case (Some k)
    let ?st1 = "st\<lparr>buffer := trim (drop k (buffer st))\<rparr>"
    let ?st2 = "tryParseAndSend parse stringify (trim (take k (buffer st))) ?st1"
    have "fanned_out stringify st ?st2"
      using tryParseAndSend_fanned_out [of stringify ?st1 parse]
      by (simp add: fanned_out_buffer)
    moreover have "fanned_out stringify ?st2 (splitLoop parse stringify ?st2)"
      using "1.IH" [OF Some refl refl] .
    ultimately show ?thesis
      using Some by (simp add: splitLoop.simps [of parse stringify st] fanned_out_trans)
  qed
qed

lemma onData_fanned_out: "fanned_out stringify st (onData parse stringify data st)"
proof -
  let ?m = "splitLoop parse stringify (st\<lparr>buffer := buffer st @ data\<rparr>)"
  have m: "fanned_out stringify st ?m"
    using splitLoop_fanned_out [of stringify "st\<lparr>buffer := buffer st @ data\<rparr>" parse]
    by (simp add: fanned_out_buffer)
  have t: "fanned_out stringify st (tryParseAndSend parse stringify (buffer ?m) ?m)"
    using m tryParseAndSend_fanned_out fanned_out_trans by blast
  show ?thesis
    unfolding onData_def Let_def using m t
    by (simp add: fanned_out_buffer split: option.splits)
qed

lemma find_map_deliver:
  "find (\<lambda>c. cid c = i) (map (deliver msgs) cs) = map_option (deliver msgs) (find (\<lambda>c. cid c = i) cs)"
  by (induction cs) simp_all

lemma find_retag:
  "i \<noteq> j \<Longrightarrow>
   find (\<lambda>c. cid c = i) (map (\<lambda>c. if cid c = j then c\<lparr>readyState := rs\<rparr> else c) cs) =
   find (\<lambda>c. cid c = i) cs"
  by (induction cs) simp_all

lemma find_filter_other:
  "i \<noteq> j \<Longrightarrow> find (\<lambda>c. cid c = i) (filter (\<lambda>c. cid c \<noteq> j) cs) = find (\<lambda>c. cid c = i) cs"
  by (induction cs) auto

lemma find_append_other:
  "\<not> P x \<Longrightarrow> find P (cs @ [x]) = find P cs"
  by (induction cs) simp_all

lemma find_append_fresh:
  "\<forall>c \<in> set cs. \<not> P c \<Longrightarrow> P x \<Longrightarrow> find P (cs @ [x]) = Some x"
  by (induction cs) simp_all

lemma followed_refl: "followed stringify i st st"
  unfolding followed_iff by (rule exI [of _ "[]"]) (simp add: option.map_ident_strong)

lemma map_option_deliver_twice:
  "map_option (deliver ys) (map_option (deliver xs) x) = map_option (deliver (xs @ ys)) x"
  by (cases x) simp_all

lemma followed_trans:
  assumes "followed stringify i a b" "followed stringify i b c"
  shows "followed stringify i a c"
proof -
  from assms(1) obtain ds where ds: "emitted b = emitted a @ ds"
    "client_of i b = map_option (deliver (map stringify ds)) (client_of i a)"
    unfolding followed_iff by blast
  from assms(2) obtain es where es: "emitted c = emitted b @ es"
    "client_of i c = map_option (deliver (map stringify es)) (client_of i b)"
    unfolding followed_iff by blast
  show ?thesis unfolding followed_iff
    by (rule exI [of _ "ds @ es"]) (simp add: ds es map_option_deliver_twice)
qed

lemma fanned_out_followed:
  "fanned_out stringify st st' \<Longrightarrow> followed stringify i st st'"
  unfolding fanned_out_iff followed_iff client_of_def
  by (auto simp: find_map_deliver)

lemma step_followed:
  assumes "\<not> concerns i e"
  shows "followed stringify i st (step parse stringify e st)"
proof (cases e)
  case (Connection j)
  with assms have "i \<noteq> j" by simp
  then show ?thesis unfolding Connection followed_iff
    by (intro exI [of _ "[]"])
       (simp add: connection_def client_of_def find_append_other option.map_ident_strong)
next
  case (Data d)
  then show ?thesis by (simp add: fanned_out_followed onData_fanned_out)
next
  case (Transport j rs)
  with assms have "i \<noteq> j" by simp
  then show ?thesis unfolding Transport followed_iff
    by (intro exI [of _ "[]"]) (simp add: client_of_def find_retag option.map_ident_strong)
next
  case (Close j)
  with assms have "i \<noteq> j" by simp
  then show ?thesis unfolding Close followed_iff
    by (intro exI [of _ "[]"]) (simp add: client_of_def find_filter_other option.map_ident_strong)
qed

lemma serve_followed:
  "\<forall>e \<in> set es. \<not> concerns i e \<Longrightarrow> followed stringify i st (serve parse stringify es st)"
proof (induction es arbitrary: st)
  case Nil
  then show ?case by (simp add: followed_refl)
next
  case (Cons e es)
  then show ?case
    using followed_trans [OF step_followed Cons.IH] by simp
qed

lemma followed_drop:
  assumes "followed stringify i st st'"
  shows "client_of i st' =
    map_option (deliver (map stringify (drop (length (emitted st)) (emitted st')))) (client_of i st)"
  using assms unfolding followed_def Let_def by simp

lemma fresh_client_of:
  "i \<notin> cid ` set (clients st) \<Longrightarrow>
     client_of i (connection i st) = Some \<lparr>cid = i, readyState = OPEN, sent = [info_msg]\<rparr>"
  unfolding client_of_def connection_def
  by (simp, rule find_append_fresh) auto

lemma connection_emitted: "emitted (connection i st) = emitted st"
  by (simp add: connection_def)

text \<open>
  Claim C8. Every record \<^verbatim>\<open>tryParseAndSend\<close> parses is sent, stringified, to every client
  registered at that moment whose socket is open, and to no other: a client whose socket
  is not open is skipped, and nothing is kept for it. Over a whole chunk, the clients
  are the same as before, each open one with the records of the chunk appended in
  order. A client that registers receives the informational record and then exactly the
  records emitted after its registration, none of those emitted before; and as long as
  no event concerns a registered client, it has received exactly the records emitted
  meanwhile if its socket is open, and nothing if it is not.
\<close>

theorem fan_out:
  "(trim jsonStr \<noteq> [] \<and> parse (trim jsonStr) = Some d \<longrightarrow>
      tryParseAndSend parse stringify jsonStr st =
        st\<lparr>clients := map (\<lambda>c. if readyState c = OPEN then c\<lparr>sent := sent c @ [stringify d]\<rparr> else c)
                         (clients st),
            emitted := emitted st @ [d]\<rparr>) \<and>
   fanned_out stringify st (onData parse stringify data st) \<and>
   (i \<notin> cid ` set (clients st) \<and> (\<forall>e \<in> set es. \<not> concerns i e) \<longrightarrow>
      sent_to i (serve parse stringify es (connection i st)) =
        info_msg # map stringify
          (drop (length (emitted st)) (emitted (serve parse stringify es (connection i st))))) \<and>
   ((\<forall>e \<in> set es. \<not> concerns i e) \<longrightarrow>
      (case client_of i st of
         None \<Rightarrow> client_of i (serve parse stringify es st) = None
       | Some c \<Rightarrow>
           client_of i (serve parse stringify es st) =
             Some (if readyState c = OPEN
                   then c\<lparr>sent := sent c @ map stringify
                          (drop (length (emitted st)) (emitted (serve parse stringify es st)))\<rparr>
                   else c)))"
proof (intro conjI impI)
  assume "trim jsonStr \<noteq> [] \<and> parse (trim jsonStr) = Some d"
  then show "tryParseAndSend parse stringify jsonStr st =
        st\<lparr>clients := map (\<lambda>c. if readyState c = OPEN then c\<lparr>sent := sent c @ [stringify d]\<rparr> else c)
                         (clients st),
            emitted := emitted st @ [d]\<rparr>"
    by (simp add: tryParseAndSend_def Let_def send_def)
next
  show "fanned_out stringify st (onData parse stringify data st)"
    by (rule onData_fanned_out)
next
  assume a: "i \<notin> cid ` set (clients st) \<and> (\<forall>e \<in> set es. \<not> concerns i e)"
  let ?st' = "serve parse stringify es (connection i st)"
  have "followed stringify i (connection i st) ?st'"
    using a by (simp add: serve_followed)
  from followed_drop [OF this] a have "client_of i ?st' =
     Some (deliver (map stringify (drop (length (emitted st)) (emitted ?st')))
       \<lparr>cid = i, readyState = OPEN, sent = [info_msg]\<rparr>)"
    by (simp add: fresh_client_of connection_emitted)
  then show "sent_to i ?st' =
     info_msg # map stringify (drop (length (emitted st)) (emitted ?st'))"
    by (simp add: sent_to_def deliver_def)
next
  assume a: "\<forall>e \<in> set es. \<not> concerns i e"
  let ?st' = "serve parse stringify es st"
  have "followed stringify i st ?st'"
    using a by (simp add: serve_followed)
  from followed_drop [OF this] show "case client_of i st of
         None \<Rightarrow> client_of i ?st' = None
       | Some c \<Rightarrow>
           client_of i ?st' =
             Some (if readyState c = OPEN
                   then c\<lparr>sent := sent c @ map stringify
                          (drop (length (emitted st)) (emitted ?st'))\<rparr>
                   else c)"
    by (simp add: deliver_def split: option.splits)
qed

theorem fan_out_witness:
  \<open>tryParseAndSend JSON_parse JSON_stringify ('' {"a":1}'' @ [LF]) twoClients =
     \<lparr>buffer = [],
      clients = [\<lparr>cid = 1, readyState = OPEN, sent = [info_msg, ''{"a":1}'']\<rparr>,
                 \<lparr>cid = 2, readyState = CLOSING, sent = [info_msg]\<rparr>],
      emitted = [JObject [(''a'', JNumber ''1'')]]\<rparr> \<and>
   7 \<notin> cid ` set (clients twoClients) \<and>
   sent_to 7 (serve JSON_parse JSON_stringify
     [Data ''{"a":1}'', Connection 8, Transport 8 CLOSING, Data ''{"b":2}''] (connection 7 twoClients)) =
     [info_msg, ''{"a":1}'', ''{"b":2}''] \<and>
   client_of 1 (serve JSON_parse JSON_stringify
     [Data ''{"a":1}'', Connection 8, Transport 8 CLOSING, Data ''{"b":2}''] twoClients) =
     Some \<lparr>cid = 1, readyState = OPEN, sent = [info_msg, ''{"a":1}'', ''{"b":2}'']\<rparr> \<and>
   client_of 2 (serve JSON_parse JSON_stringify
     [Data ''{"a":1}'', Connection 8, Transport 8 CLOSING, Data ''{"b":2}''] twoClients) =
     Some \<lparr>cid = 2, readyState = CLOSING, sent = [info_msg]\<rparr>\<close>
proof -
  let ?es = \<open>[Data ''{"a":1}'', Connection 8, Transport 8 CLOSING, Data ''{"b":2}'']\<close>
  let ?a = \<open>JObject [(''a'', JNumber ''1'')]\<close>
  have t: \<open>trim ('' {"a":1}'' @ [LF]) \<noteq> [] \<and>
           JSON_parse (trim ('' {"a":1}'' @ [LF])) = Some ?a\<close>
    by code_simp
  have s: \<open>JSON_stringify ?a = ''{"a":1}''\<close> by code_simp
  have h7: \<open>7 \<notin> cid ` set (clients twoClients) \<and> (\<forall>e \<in> set ?es. \<not> concerns 7 e)\<close>
    by (simp add: twoClients_def)
  have h1: \<open>\<forall>e \<in> set ?es. \<not> concerns 1 e\<close> and h2: \<open>\<forall>e \<in> set ?es. \<not> concerns 2 e\<close>
    by simp_all
  have c: \<open>client_of 1 twoClients = Some \<lparr>cid = 1, readyState = OPEN, sent = [info_msg]\<rparr>\<close>
    \<open>client_of 2 twoClients = Some \<lparr>cid = 2, readyState = CLOSING, sent = [info_msg]\<rparr>\<close>
    by (simp_all add: client_of_def twoClients_def)
  have e7: \<open>map JSON_stringify (drop (length (emitted twoClients))
             (emitted (serve JSON_parse JSON_stringify ?es (connection 7 twoClients)))) =
           [''{"a":1}'', ''{"b":2}'']\<close>
    by code_simp
  have e: \<open>map JSON_stringify (drop (length (emitted twoClients))
             (emitted (serve JSON_parse JSON_stringify ?es twoClients))) =
           [''{"a":1}'', ''{"b":2}'']\<close>
    by code_simp
  note f = fan_out [where parse = JSON_parse and stringify = JSON_stringify and st = twoClients
      and es = ?es]
  from t f [where jsonStr = \<open>'' {"a":1}'' @ [LF]\<close> and d = ?a]
  have 1: \<open>tryParseAndSend JSON_parse JSON_stringify ('' {"a":1}'' @ [LF]) twoClients =
     \<lparr>buffer = [],
      clients = [\<lparr>cid = 1, readyState = OPEN, sent = [info_msg, ''{"a":1}'']\<rparr>,
                 \<lparr>cid = 2, readyState = CLOSING, sent = [info_msg]\<rparr>],
      emitted = [?a]\<rparr>\<close>
    by (simp add: s) (simp add: twoClients_def)
  from h7 f [where i = 7]
  have 2: \<open>sent_to 7 (serve JSON_parse JSON_stringify ?es (connection 7 twoClients)) =
        info_msg # map JSON_stringify (drop (length (emitted twoClients))
          (emitted (serve JSON_parse JSON_stringify ?es (connection 7 twoClients))))\<close>
    by blast
  from h1 f [where i = 1]
  have 3: \<open>client_of 1 (serve JSON_parse JSON_stringify ?es twoClients) =
     Some \<lparr>cid = 1, readyState = OPEN, sent = [info_msg, ''{"a":1}'', ''{"b":2}'']\<rparr>\<close>
    by (simp only: c e option.case) simp
  from h2 f [where i = 2]
  have 4: \<open>client_of 2 (serve JSON_parse JSON_stringify ?es twoClients) =
     Some \<lparr>cid = 2, readyState = CLOSING, sent = [info_msg]\<rparr>\<close>
    by (simp only: c option.case) simp
  show ?thesis
    using 1 2 3 4 h7 by (simp only: e7) simp
qed

end
